theory Spec2Isabelle
  imports Main "HOL-Library.Sublist" "HOL-Library.Word"
begin

unbundle bit_operations_syntax

text \<open>
  \<open>cet\<close> sends a source file, together with the other sources of its project, to a
  Compiler Explorer server and prints the assembly that comes back; unless it is run
  with \<open>-once\<close> it watches the file and compiles again when the file changes.

  This theory is a shallow embedding of \<open>main.go\<close>: \<open>collectProjectFiles\<close> and the
  directory walk of path/filepath it runs on, \<open>compile\<close>, \<open>watch\<close> with its debounce
  timer, and \<open>main\<close>.  What the program reads and changes outside itself (the file
  system, the server, the watcher, the clock and its timers, the output) is a record,
  the world, that the functions take and return.  An error is a value.  The functions
  of packages whose results the program only passes on are parameters.
\<close>

section \<open>Errors\<close>

text \<open>
  Errors of the packages the program calls (os, path/filepath, encoding/json, net/http,
  fsnotify) are values of \<open>ext_error\<close>: the message \<open>Error()\<close> prints, and whether
  \<open>os.IsNotExist\<close> holds of it.  The Go \<open>error\<close> values the program itself handles
  are the two sentinels of path/filepath, an error of a package, an error wrapped by
  \<open>fmt.Errorf\<close> (text before the wrapped error, the error, text after it), and the
  nil-dereference panic of a callback that is handed neither an entry nor an error.
\<close>

datatype ext_error = ExtError (is_not_exist: bool) (error_text: string)

datatype error =
    SkipDir
  | SkipAll
  | LibError ext_error
  | Errorf string error string
  | NilPanic

fun Error :: "error \<Rightarrow> string" where
  "Error SkipDir = ''skip this directory''"
| "Error SkipAll = ''skip everything and stop the walk''"
| "Error (LibError e) = error_text e"
| "Error (Errorf pre e post) = pre @ Error e @ post"
| "Error NilPanic = ''runtime error: invalid memory address or nil pointer dereference''"

section \<open>Paths (path/filepath on Unix)\<close>

type_synonym path = string

definition Separator :: char where
  "Separator = CHR ''/''"

text \<open>
  \<open>filepath.Ext\<close>: the loop runs \<open>i\<close> from \<open>len(path) - 1\<close> down to 0 while
  \<open>path[i]\<close> is not a separator and returns \<open>path[i:]\<close> at the first dot; the
  argument \<open>Suc i\<close> of \<open>Ext_loop\<close> stands for the index \<open>i\<close>.
\<close>

fun Ext_loop :: "path \<Rightarrow> nat \<Rightarrow> string" where
  "Ext_loop p 0 = ''''"
| "Ext_loop p (Suc i) =
     (if p ! i = Separator then ''''
      else if p ! i = CHR ''.'' then drop i p
      else Ext_loop p i)"

definition Ext :: "path \<Rightarrow> string" where
  "Ext p = Ext_loop p (length p)"

text \<open>\<open>strings.Split(s, "/")\<close> and \<open>strings.Join(elems, "/")\<close>.\<close>

fun split_sep :: "string \<Rightarrow> string list" where
  "split_sep [] = [[]]"
| "split_sep (c # cs) =
     (if c = Separator then [] # split_sep cs
      else (case split_sep cs of
              [] \<Rightarrow> [[c]]
            | x # xs \<Rightarrow> (c # x) # xs))"

fun join_sep :: "string list \<Rightarrow> string" where
  "join_sep [] = ''''"
| "join_sep [x] = x"
| "join_sep (x # y # ys) = x @ [Separator] @ join_sep (y # ys)"

text \<open>
  \<open>filepath.Clean\<close>, by its documented rules: separators are merged, every \<open>.\<close>
  element is dropped, every inner \<open>..\<close> is dropped together with the element before
  it, a \<open>..\<close> that begins a rooted path is dropped, and the empty result is \<open>.\<close>.
  \<open>clean_elems\<close> keeps the output elements as a stack, last element first.
\<close>

fun clean_elems :: "bool \<Rightarrow> string list \<Rightarrow> string list \<Rightarrow> string list" where
  "clean_elems rooted [] out = rev out"
| "clean_elems rooted (e # es) out =
     (if e = '''' \<or> e = ''.'' then clean_elems rooted es out
      else if e = ''..'' then
        (case out of
           [] \<Rightarrow> if rooted then clean_elems rooted es [] else clean_elems rooted es [''..'']
         | lst # below \<Rightarrow>
             if lst \<noteq> ''..'' then clean_elems rooted es below
             else clean_elems rooted es (''..'' # out))
      else clean_elems rooted es (e # out))"

definition Clean :: "path \<Rightarrow> path" where
  "Clean p =
     (if p = '''' then ''.''
      else
        let rooted = (hd p = Separator);
            s = (if rooted then [Separator] else '''') @ join_sep (clean_elems rooted (split_sep p) [])
        in if s = '''' then ''.'' else s)"

text \<open>\<open>filepath.Join\<close>: the elements from the first non-empty one on, joined and cleaned.\<close>

definition Join :: "string list \<Rightarrow> path" where
  "Join elem =
     (case dropWhile (\<lambda>e. e = '''') elem of
        [] \<Rightarrow> ''''
      | es \<Rightarrow> Clean (join_sep es))"

text \<open>
  \<open>filepath.Base\<close>: trailing separators are stripped, the last element is returned;
  the empty path gives \<open>.\<close> and a path of separators only gives the separator.
\<close>

definition Base :: "path \<Rightarrow> string" where
  "Base p =
     (if p = '''' then ''.''
      else
        let stripped = rev (dropWhile (\<lambda>c. c = Separator) (rev p));
            last_elem = rev (takeWhile (\<lambda>c. c \<noteq> Separator) (rev stripped))
        in if last_elem = '''' then [Separator] else last_elem)"

text \<open>\<open>filepath.Dir\<close>: everything up to the last separator, cleaned.\<close>

definition Dir :: "path \<Rightarrow> path" where
  "Dir p = Clean (rev (dropWhile (\<lambda>c. c \<noteq> Separator) (rev p)))"

definition IsAbs :: "path \<Rightarrow> bool" where
  "IsAbs p = (case p of [] \<Rightarrow> False | c # _ \<Rightarrow> c = Separator)"

section \<open>The file system\<close>

text \<open>
  What \<open>os.Lstat\<close> and \<open>os.ReadDir\<close> report below a path is a finite tree: a
  directory with the entries \<open>ReadDir\<close> returns and the error it returns (if any), or
  an entry that is not a directory, with the type its mode bits give.  Symbolic links
  are entries of their own: \<open>WalkDir\<close> does not follow them.  \<open>os.ReadFile\<close> is a
  function of the path, since it follows links and can fail on any entry.
\<close>

datatype file_type = Regular | Symlink | NamedPipe | Socket | Device | CharDevice | Irregular

datatype fsnode =
    File file_type
  | Directory "ext_error option" "(string \<times> fsnode) list"

record filesystem =
  Lstat :: "path \<Rightarrow> ext_error + fsnode"
  ReadFile :: "path \<Rightarrow> ext_error + string"
  Stat :: "path \<Rightarrow> ext_error option"

text \<open>The two methods of \<open>fs.DirEntry\<close> the program calls.\<close>

record DirEntry =
  Name :: string
  IsDir :: bool

fun entry_of :: "string \<Rightarrow> fsnode \<Rightarrow> DirEntry" where
  "entry_of n (File t) = \<lparr>Name = n, IsDir = False\<rparr>"
| "entry_of n (Directory e ents) = \<lparr>Name = n, IsDir = True\<rparr>"

section \<open>filepath.WalkDir\<close>

text \<open>
  The callback \<open>fs.WalkDirFunc\<close> together with the variables its closure updates
  (\<open>'s\<close>): it gets the path, the entry (nil when \<open>Lstat\<close> of the root failed), the
  error of the walk, and returns its error and the updated variables.
\<close>

type_synonym 's WalkDirFunc =
  "path \<Rightarrow> DirEntry option \<Rightarrow> error option \<Rightarrow> 's \<Rightarrow> error option \<times> 's"

text \<open>
  \<open>walkDir\<close> of path/filepath: the callback is called on the entry; a directory that
  the callback skips (\<open>SkipDir\<close>) ends there without error; a directory whose
  \<open>ReadDir\<close> failed is reported to the callback a second time; the entries are then
  walked in the order \<open>ReadDir\<close> gave them, each under \<open>Join(path, name)\<close>, and
  \<open>SkipDir\<close> from an entry ends the loop over the directory.
\<close>

fun walkDir :: "'s WalkDirFunc \<Rightarrow> path \<Rightarrow> string \<Rightarrow> fsnode \<Rightarrow> 's \<Rightarrow> error option \<times> 's"
  and walkEntries :: "'s WalkDirFunc \<Rightarrow> path \<Rightarrow> (string \<times> fsnode) list \<Rightarrow> 's \<Rightarrow> error option \<times> 's"
where
  "walkDir fn p n (File t) s = fn p (Some (entry_of n (File t))) None s"
| "walkDir fn p n (Directory rderr ents) s =
     (case fn p (Some (entry_of n (Directory rderr ents))) None s of
        (Some err, s1) \<Rightarrow> (if err = SkipDir then (None, s1) else (Some err, s1))
      | (None, s1) \<Rightarrow>
          (case rderr of
             None \<Rightarrow> walkEntries fn p ents s1
           | Some e \<Rightarrow>
               (case fn p (Some (entry_of n (Directory rderr ents))) (Some (LibError e)) s1 of
                  (Some err, s2) \<Rightarrow> (if err = SkipDir then (None, s2) else (Some err, s2))
                | (None, s2) \<Rightarrow> walkEntries fn p ents s2)))"
| "walkEntries fn p [] s = (None, s)"
| "walkEntries fn p (ent # rest) s =
     (case walkDir fn (Join [p, fst ent]) (fst ent) (snd ent) s of
        (Some err, s1) \<Rightarrow> (if err = SkipDir then (None, s1) else (Some err, s1))
      | (None, s1) \<Rightarrow> walkEntries fn p rest s1)"

text \<open>
  \<open>filepath.WalkDir\<close>: when \<open>Lstat\<close> of the root fails the callback is called with
  that error and no entry; the root's entry is named by the base name of the root
  path; \<open>SkipDir\<close> and \<open>SkipAll\<close> at the top are no error.
\<close>

definition WalkDir :: "filesystem \<Rightarrow> path \<Rightarrow> 's WalkDirFunc \<Rightarrow> 's \<Rightarrow> error option \<times> 's" where
  "WalkDir fs root fn s =
     (case (case Lstat fs root of
              Inl e \<Rightarrow> fn root None (Some (LibError e)) s
            | Inr node \<Rightarrow> walkDir fn root (Base root) node s) of
        (Some err, s1) \<Rightarrow> (if err = SkipDir \<or> err = SkipAll then (None, s1) else (Some err, s1))
      | (None, s1) \<Rightarrow> (None, s1))"

section \<open>collectProjectFiles\<close>

record FileEntry =
  Filename :: string
  Contents :: string

text \<open>
  \<open>skipDirs\<close> is a \<open>map[string]bool\<close>; reading a key that is absent gives
  \<open>false\<close>.
\<close>

definition skipDirs :: "string \<rightharpoonup> bool" where
  "skipDirs = map_of
     [(''.zig-cache'', True), (''.git'', True), (''.idea'', True),
      (''node_modules'', True), (''target'', True), (''zig-out'', True)]"

definition skipDirs_at :: "string \<Rightarrow> bool" where
  "skipDirs_at n = (case skipDirs n of None \<Rightarrow> False | Some b \<Rightarrow> b)"

text \<open>
  The closure passed to \<open>WalkDir\<close> (lines 92 to 124); \<open>files\<close> is the variable it
  appends to, \<open>rel\<close> is \<open>filepath.Rel\<close>.
\<close>

fun collectVisit ::
  "(path \<Rightarrow> path \<Rightarrow> ext_error + path) \<Rightarrow> filesystem \<Rightarrow> string \<Rightarrow> path \<Rightarrow> path \<Rightarrow>
   FileEntry list WalkDirFunc"
where
  "collectVisit rel fs ext mainFile relativeToDir p d (Some err) files = (Some err, files)"
| "collectVisit rel fs ext mainFile relativeToDir p None None files = (Some NilPanic, files)"
| "collectVisit rel fs ext mainFile relativeToDir p (Some d) None files =
     (if IsDir d then
        (if skipDirs_at (Name d) then (Some SkipDir, files) else (None, files))
      else if Ext p \<noteq> ext \<or> p = mainFile \<or> Name d = ''build.zig'' then (None, files)
      else
        (case ReadFile fs p of
           Inl e \<Rightarrow> (Some (LibError e), files)
         | Inr content \<Rightarrow>
             (case rel relativeToDir p of
                Inl e \<Rightarrow> (Some (LibError e), files)
              | Inr relPath \<Rightarrow>
                  (None, files @ [\<lparr>Filename = relPath, Contents = content\<rparr>]))))"

text \<open>Go returns both the list collected so far and the error of the walk.\<close>

definition collectProjectFiles ::
  "(path \<Rightarrow> path \<Rightarrow> ext_error + path) \<Rightarrow> filesystem \<Rightarrow> path \<Rightarrow> path \<Rightarrow> path \<Rightarrow>
   FileEntry list \<times> error option"
where
  "collectProjectFiles rel fs searchDir mainFile relativeToDir =
     (let ext = Ext mainFile;
          (err, files) = WalkDir fs searchDir (collectVisit rel fs ext mainFile relativeToDir) []
      in (files, err))"

subsection \<open>The entries below the search directory\<close>

text \<open>
  For stating where an entry of the result comes from: every entry of the tree that is
  not a directory, in the order of the walk, with the path \<open>WalkDir\<close> gives it, its
  name, the names of the directories above it from the search directory down, and its
  type.
\<close>

record walked =
  wpath :: path
  wname :: string
  wdirs :: "string list"
  wtype :: file_type

fun files_under :: "path \<Rightarrow> string \<Rightarrow> string list \<Rightarrow> fsnode \<Rightarrow> walked list"
  and entries_under :: "path \<Rightarrow> string list \<Rightarrow> (string \<times> fsnode) list \<Rightarrow> walked list"
where
  "files_under p n dirs (File t) = [\<lparr>wpath = p, wname = n, wdirs = dirs, wtype = t\<rparr>]"
| "files_under p n dirs (Directory rderr ents) = entries_under p (dirs @ [n]) ents"
| "entries_under p dirs [] = []"
| "entries_under p dirs (ent # rest) =
     files_under (Join [p, fst ent]) (fst ent) dirs (snd ent) @ entries_under p dirs rest"

definition walked_files :: "filesystem \<Rightarrow> path \<Rightarrow> walked list" where
  "walked_files fs searchDir =
     (case Lstat fs searchDir of
        Inl e \<Rightarrow> []
      | Inr node \<Rightarrow> files_under searchDir (Base searchDir) [] node)"

text \<open>
  \<open>read_from rel fs relativeToDir e c\<close>: the entry \<open>e\<close> of the result is what the
  closure builds from the walked entry \<open>c\<close>.
\<close>

definition read_from ::
  "(path \<Rightarrow> path \<Rightarrow> ext_error + path) \<Rightarrow> filesystem \<Rightarrow> path \<Rightarrow> FileEntry \<Rightarrow> walked \<Rightarrow> bool"
where
  "read_from rel fs relativeToDir e c =
     (rel relativeToDir (wpath c) = Inr (Filename e) \<and> ReadFile fs (wpath c) = Inr (Contents e))"

text \<open>
  \<open>accepted rel fs ext mainFile relativeToDir e c\<close>: the entry \<open>e\<close> is built from
  the walked entry \<open>c\<close>, and \<open>c\<close> passes every test of the closure: its extension
  is \<open>ext\<close>, its path is not the main file, its name is not \<open>build.zig\<close>, and no
  directory above it is in \<open>skipDirs\<close>.
\<close>

definition accepted ::
  "(path \<Rightarrow> path \<Rightarrow> ext_error + path) \<Rightarrow> filesystem \<Rightarrow> string \<Rightarrow> path \<Rightarrow> path \<Rightarrow>
   FileEntry \<Rightarrow> walked \<Rightarrow> bool"
where
  "accepted rel fs ext mainFile relativeToDir e c =
     (read_from rel fs relativeToDir e c \<and> Ext (wpath c) = ext \<and> wpath c \<noteq> mainFile \<and>
      wname c \<noteq> ''build.zig'' \<and> list_all (\<lambda>d. \<not> skipDirs_at d) (wdirs c))"

section \<open>Requests, responses and the packages outside the repository\<close>

record Filters =
  Binary :: bool
  CommentOnly :: bool
  Demangle :: bool
  Directives :: bool
  Intel :: bool
  Labels :: bool
  Trim :: bool

record CompileOptions =
  UserArguments :: string
  Filters :: Filters

record CompileRequest =
  Source :: string
  Options :: CompileOptions
  Files :: "FileEntry list"

record OutputLine =
  Text :: string

text \<open>An assembly line: its text, and the optional source position (file, line).\<close>

record AsmLine =
  AsmText :: string
  AsmSource :: "(string option \<times> int) option"

record CompileResponse =
  Code :: int
  Stdout :: "OutputLine list"
  Stderr :: "OutputLine list"
  Asm :: "AsmLine list"

record http_request =
  Method :: string
  URL :: string
  Header :: "(string \<times> string) list"
  Body :: string

text \<open>
  What the program gets from packages whose results it only passes on:
  \<open>filepath.Rel\<close>, \<open>json.Marshal\<close>, \<open>json.Unmarshal\<close>, the URL check of
  \<open>http.NewRequest\<close>, \<open>strings.ToLower\<close>, the chroma pipeline of \<open>highlight\<close>
  (language and code to the formatted text, or the error of tokenising or formatting),
  the text of \<open>flag.PrintDefaults\<close> and \<open>Time.Format("15:04:05")\<close> of a clock
  value.  Every theorem below holds for any choice of these functions.
\<close>

record packages =
  filepath_Rel :: "path \<Rightarrow> path \<Rightarrow> ext_error + path"
  json_Marshal :: "CompileRequest \<Rightarrow> ext_error + string"
  json_Unmarshal :: "string \<Rightarrow> ext_error + CompileResponse"
  url_Parse :: "string \<Rightarrow> ext_error option"
  strings_ToLower :: "string \<Rightarrow> string"
  chroma :: "string \<Rightarrow> string \<Rightarrow> ext_error + string"
  flag_PrintDefaults :: string
  time_Format :: "nat \<Rightarrow> string"

section \<open>The world the program runs in\<close>

text \<open>
  A timer made by \<open>time.AfterFunc\<close>: the clock value (in milliseconds) at which it
  fires, and whether it is still pending, has fired, or was stopped.
\<close>

datatype timer_status = Pending | Fired | Stopped

record timer =
  deadline :: nat
  status :: timer_status

text \<open>
  The effects of the program, in the order they happen: text written to standard
  output and standard error, the \<open>clear\<close> command, a request handed to
  \<open>http.Client.Do\<close>, the calls on the fsnotify watcher, the timer calls (the timer
  and, for a new one, its deadline), and a history mark for each invocation of
  \<open>compile\<close> (it is written nowhere; it lets a theorem count the invocations).
\<close>

datatype effect =
    Print string
  | PrintErr string
  | ClearScreen
  | HttpDo http_request
  | WatcherNew
  | WatcherAdd path
  | WatcherClose
  | TimerStart nat nat
  | TimerStop nat
  | CompileCalled

text \<open>
  The world: the file system, the working directory \<open>os.Getwd\<close> reports, what
  \<open>client.Do\<close> returns for a request (its error, or the response, whose body
  \<open>io.ReadAll\<close> reads or fails to read), the results of \<open>fsnotify.NewWatcher\<close> and
  \<open>Watcher.Add\<close>, the clock in milliseconds, the timers made so far (a timer is named
  by its position in the list), and the effects so far.
\<close>

record world =
  fsys :: filesystem
  getwd :: "ext_error + path"
  http_do :: "http_request \<Rightarrow> ext_error + (ext_error + string)"
  new_watcher :: "ext_error option"
  watcher_add :: "path \<Rightarrow> ext_error option"
  now :: nat
  timers :: "timer list"
  trace :: "effect list"

definition emit :: "effect \<Rightarrow> world \<Rightarrow> world" where
  "emit e w = w\<lparr>trace := trace w @ [e]\<rparr>"

text \<open>
  The escape character, the line feed, the apostrophe, and the three characters
  outside ASCII that the program prints, in UTF-8.
\<close>

definition esc :: string where
  "esc = [CHR 0x1B]"

definition nl :: string where
  "nl = [CHR 0x0A]"

definition sq :: string where
  "sq = [CHR 0x27]"

definition hbar :: string where
  "hbar = [CHR 0xE2, CHR 0x94, CHR 0x81]"

definition bolt :: string where
  "bolt = [CHR 0xE2, CHR 0x9A, CHR 0xA1]"

definition emdash :: string where
  "emdash = [CHR 0xE2, CHR 0x80, CHR 0x94]"

definition Println :: "string \<Rightarrow> world \<Rightarrow> world" where
  "Println s w = emit (Print (s @ nl)) w"

definition clearScreen :: "world \<Rightarrow> world" where
  "clearScreen w = emit ClearScreen w"

text \<open>\<open>filepath.Abs\<close> on Unix.\<close>

definition Abs :: "world \<Rightarrow> path \<Rightarrow> ext_error + path" where
  "Abs w p =
     (if IsAbs p then Inr (Clean p)
      else (case getwd w of
              Inl e \<Rightarrow> Inl e
            | Inr wd \<Rightarrow> Inr (Join [wd, p])))"

section \<open>highlight and getLangFromFile\<close>

definition highlight :: "packages \<Rightarrow> string \<Rightarrow> string \<Rightarrow> string" where
  "highlight pk code language =
     (case chroma pk language code of
        Inl e \<Rightarrow> code
      | Inr formatted \<Rightarrow> formatted)"

definition getLangFromFile :: "packages \<Rightarrow> path \<Rightarrow> string" where
  "getLangFromFile pk filePath =
     (let ext = strings_ToLower pk (Ext filePath) in
      if ext = ''.zig'' then ''zig''
      else if ext = ''.c'' then ''c''
      else if ext = ''.cpp'' \<or> ext = ''.cc'' \<or> ext = ''.cxx'' then ''cpp''
      else if ext = ''.rs'' then ''rust''
      else if ext = ''.go'' then ''go''
      else if ext = ''.py'' then ''python''
      else '''')"

section \<open>compile\<close>

text \<open>
  \<open>http.NewRequest\<close>: the request, unless the URL does not parse.
  \<open>Header.Set\<close> replaces the values of a key.
\<close>

definition NewRequest :: "packages \<Rightarrow> string \<Rightarrow> string \<Rightarrow> string \<Rightarrow> ext_error + http_request" where
  "NewRequest pk method url body =
     (case url_Parse pk url of
        Some e \<Rightarrow> Inl e
      | None \<Rightarrow> Inr \<lparr>Method = method, URL = url, Header = [], Body = body\<rparr>)"

definition Header_Set :: "string \<Rightarrow> string \<Rightarrow> http_request \<Rightarrow> http_request" where
  "Header_Set k v r = r\<lparr>Header := filter (\<lambda>kv. fst kv \<noteq> k) (Header r) @ [(k, v)]\<rparr>"

text \<open>The request of lines 217 to 232.\<close>

definition compileRequest :: "string \<Rightarrow> FileEntry list \<Rightarrow> string \<Rightarrow> CompileRequest" where
  "compileRequest source projectFiles args =
     \<lparr>Source = source,
      Options =
        \<lparr>UserArguments = args,
         Filters =
           \<lparr>Binary = False, CommentOnly = True, Demangle = True, Directives = True,
            Intel = True, Labels = True, Trim = False\<rparr>\<rparr>,
      Files = projectFiles\<rparr>"

text \<open>Lines 265 to 284: the response is printed.\<close>

definition printResponse :: "packages \<Rightarrow> CompileResponse \<Rightarrow> world \<Rightarrow> world" where
  "printResponse pk result w =
     (let w1 = foldl (\<lambda>w line. emit (Print (esc @ ''[31m'' @ Text line @ esc @ ''[0m'' @ nl)) w)
                 w (Stderr result);
          w2 = foldl (\<lambda>w line. Println (Text line) w) w1 (Stdout result)
      in if length (Asm result) > 0 then
           emit (Print (highlight pk (concat (map (\<lambda>line. AsmText line @ nl) (Asm result))) ''gas''))
             (Println (nl @ esc @ ''[36m'' @ hbar @ hbar @ hbar @ '' Assembly '' @ hbar @ hbar @ hbar
                        @ esc @ ''[0m'') w2)
         else w2)"

text \<open>
  Lines 217 to 286 of \<open>compile\<close>: the request is built, marshalled, posted, and the
  response is read, parsed and printed.  Handing the request to \<open>client.Do\<close> is the
  effect \<open>HttpDo\<close>, whatever \<open>Do\<close> returns.
\<close>

definition postRequest ::
  "packages \<Rightarrow> string \<Rightarrow> string \<Rightarrow> string \<Rightarrow> string \<Rightarrow> FileEntry list \<Rightarrow> world \<Rightarrow>
   error option \<times> world"
where
  "postRequest pk baseURL compiler args source projectFiles w =
     (case json_Marshal pk (compileRequest source projectFiles args) of
        Inl e \<Rightarrow> (Some (Errorf ''failed to marshal request: '' (LibError e) ''''), w)
      | Inr jsonData \<Rightarrow>
          (case NewRequest pk ''POST'' (baseURL @ ''/api/compiler/'' @ compiler @ ''/compile'') jsonData of
             Inl e \<Rightarrow> (Some (Errorf ''failed to create request: '' (LibError e) ''''), w)
           | Inr httpReq0 \<Rightarrow>
               (let httpReq = Header_Set ''Accept'' ''application/json''
                                (Header_Set ''Content-Type'' ''application/json'' httpReq0);
                    w1 = emit (HttpDo httpReq) w
                in case http_do w httpReq of
                     Inl e \<Rightarrow> (Some (Errorf ''failed to send request: '' (LibError e) ''''), w1)
                   | Inr resp \<Rightarrow>
                       (case resp of
                          Inl e \<Rightarrow> (Some (Errorf ''failed to read response: '' (LibError e) ''''), w1)
                        | Inr body \<Rightarrow>
                            (case json_Unmarshal pk body of
                               Inl e \<Rightarrow>
                                 (Some (Errorf ''failed to parse response: '' (LibError e)
                                          (nl @ ''Body: '' @ take (min 500 (length body)) body)), w1)
                             | Inr result \<Rightarrow> (None, printResponse pk result w1))))))"

text \<open>
  \<open>compile\<close>, lines 179 to 216, continued by \<open>postRequest\<close>.  When
  \<open>collectProjectFiles\<close> fails the warning is printed and \<open>projectFiles\<close> is nil.
\<close>

definition compile ::
  "packages \<Rightarrow> string \<Rightarrow> string \<Rightarrow> path \<Rightarrow> string \<Rightarrow> bool \<Rightarrow> string \<Rightarrow> world \<Rightarrow>
   error option \<times> world"
where
  "compile pk baseURL compiler filePath args showSource projectRoot w0 =
     (let w = emit CompileCalled w0 in
      case ReadFile (fsys w) filePath of
        Inl e \<Rightarrow> (Some (Errorf ''failed to read file: '' (LibError e) ''''), w)
      | Inr source \<Rightarrow>
          (let w1 = (if showSource then
                       Println (highlight pk source (getLangFromFile pk filePath))
                         (Println (esc @ ''[36m'' @ hbar @ hbar @ hbar @ '' Source '' @ hbar @ hbar @ hbar
                                    @ esc @ ''[0m'') w)
                     else w)
           in case Abs w1 filePath of
                Inl e \<Rightarrow> (Some (Errorf ''failed to get absolute path: '' (LibError e) ''''), w1)
              | Inr absPath \<Rightarrow>
                  (let mainDir = Dir absPath in
                   case (if projectRoot \<noteq> '''' then Abs w1 projectRoot else Inr mainDir) of
                     Inl e \<Rightarrow>
                       (Some (Errorf ''failed to get absolute project root: '' (LibError e) ''''), w1)
                   | Inr searchDir \<Rightarrow>
                       (case collectProjectFiles (filepath_Rel pk) (fsys w1) searchDir absPath mainDir of
                          (projectFiles, Some err) \<Rightarrow>
                            postRequest pk baseURL compiler args source []
                              (emit (Print (esc @ ''[33mWarning: could not collect project files: ''
                                            @ Error err @ esc @ ''[0m'' @ nl)) w1)
                        | (projectFiles, None) \<Rightarrow>
                            postRequest pk baseURL compiler args source projectFiles w1))))"

section \<open>Timers\<close>

text \<open>
  \<open>time.AfterFunc(d, f)\<close> makes a pending timer with the deadline \<open>d\<close> after the
  clock; \<open>Timer.Stop\<close> stops a timer that is still pending.  A timer fires when the
  clock reaches its deadline: it runs \<open>f\<close> at that clock value.  Since the world
  cannot hold functions on worlds, the function \<open>f\<close> of the timers is an argument of
  \<open>fire\<close> and \<open>elapse\<close>; the program has one call of \<open>AfterFunc\<close>.  Go runs
  \<open>f\<close> in a goroutine of its own; here it runs to its end before the loop handles its
  next input.
\<close>

definition AfterFunc :: "nat \<Rightarrow> world \<Rightarrow> nat \<times> world" where
  "AfterFunc d w =
     (length (timers w),
      emit (TimerStart (length (timers w)) (now w + d))
        (w\<lparr>timers := timers w @ [\<lparr>deadline = now w + d, status = Pending\<rparr>]\<rparr>))"

definition Stop :: "nat \<Rightarrow> world \<Rightarrow> world" where
  "Stop t w =
     emit (TimerStop t)
       (if t < length (timers w) \<and> status (timers w ! t) = Pending
        then w\<lparr>timers := (timers w)[t := (timers w ! t)\<lparr>status := Stopped\<rparr>]\<rparr>
        else w)"

definition fire :: "(world \<Rightarrow> world) \<Rightarrow> nat \<Rightarrow> world \<Rightarrow> world" where
  "fire f t w =
     f (w\<lparr>now := max (now w) (deadline (timers w ! t)),
          timers := (timers w)[t := (timers w ! t)\<lparr>status := Fired\<rparr>]\<rparr>)"

text \<open>
  The clock advances by \<open>d\<close> milliseconds: the pending timers whose deadline is
  reached fire, in the order they were made.
\<close>

definition elapse :: "(world \<Rightarrow> world) \<Rightarrow> nat \<Rightarrow> world \<Rightarrow> world" where
  "elapse f d w =
     (foldl (\<lambda>w' t. if t < length (timers w') \<and> status (timers w' ! t) = Pending
                        \<and> deadline (timers w' ! t) \<le> now w + d
                     then fire f t w' else w')
        w [0..<length (timers w)])\<lparr>now := now w + d\<rparr>"

section \<open>watch\<close>

text \<open>
  An event of fsnotify: the path and the operations, a bit set (\<open>Create\<close> is
  \<open>1 << iota\<close>, then \<open>Write\<close>, \<open>Remove\<close>, \<open>Rename\<close>, \<open>Chmod\<close>).
\<close>

record Event =
  EventName :: string
  EventOp :: "32 word"

definition fsnotify_Create :: "32 word" where
  "fsnotify_Create = 1"

definition fsnotify_Write :: "32 word" where
  "fsnotify_Write = 2"




text \<open>
  What the \<open>select\<close> of the loop receives, in the order it receives it: an event or
  the closing of \<open>watcher.Events\<close>, an error or the closing of \<open>watcher.Errors\<close>;
  \<open>Elapse d\<close> is the loop waiting in \<open>select\<close> for \<open>d\<close> milliseconds.
\<close>

datatype input =
    FsEvent Event
  | EventsClosed
  | WatcherError ext_error
  | ErrorsClosed
  | Elapse nat

text \<open>A function that loops for ever has not returned when its input ends.\<close>

datatype 'a run = Running | Returned 'a

text \<open>The condition of line 325.\<close>

definition triggers :: "path \<Rightarrow> Event \<Rightarrow> bool" where
  "triggers absPath event =
     (EventName event = absPath \<and>
      (EventOp event AND fsnotify_Write = fsnotify_Write \<or>
       EventOp event AND fsnotify_Create = fsnotify_Create))"

text \<open>
  The loop of lines 319 to 343; \<open>recompile\<close> is the function handed to
  \<open>AfterFunc\<close>, \<open>debounce\<close> the timer variable (nil is \<open>None\<close>).  The loop
  returns its variable with the world, for the theorems about it.
\<close>

fun watch_loop ::
  "(world \<Rightarrow> world) \<Rightarrow> path \<Rightarrow> nat option \<Rightarrow> input list \<Rightarrow> world \<Rightarrow>
   error option run \<times> nat option \<times> world"
where
  "watch_loop recompile absPath debounce [] w = (Running, debounce, w)"
| "watch_loop recompile absPath debounce (Elapse d # ins) w =
     watch_loop recompile absPath debounce ins (elapse recompile d w)"
| "watch_loop recompile absPath debounce (FsEvent event # ins) w =
     (if triggers absPath event then
        (let w1 = (case debounce of None \<Rightarrow> w | Some t \<Rightarrow> Stop t w);
             (t', w2) = AfterFunc 100 w1
         in watch_loop recompile absPath (Some t') ins w2)
      else watch_loop recompile absPath debounce ins w)"
| "watch_loop recompile absPath debounce (EventsClosed # ins) w = (Returned None, debounce, w)"
| "watch_loop recompile absPath debounce (WatcherError e # ins) w =
     watch_loop recompile absPath debounce ins
       (emit (Print (esc @ ''[31mWatcher error: '' @ error_text e @ esc @ ''[0m'' @ nl)) w)"
| "watch_loop recompile absPath debounce (ErrorsClosed # ins) w = (Returned None, debounce, w)"

text \<open>\<open>compile\<close> with its error printed, as at lines 312 to 314 and 332 to 334.\<close>

definition compile_report ::
  "packages \<Rightarrow> string \<Rightarrow> string \<Rightarrow> path \<Rightarrow> string \<Rightarrow> bool \<Rightarrow> string \<Rightarrow> world \<Rightarrow> world"
where
  "compile_report pk baseURL compiler filePath args showSource projectRoot w =
     (case compile pk baseURL compiler filePath args showSource projectRoot w of
        (Some err, w1) \<Rightarrow> emit (Print (esc @ ''[31mError: '' @ Error err @ esc @ ''[0m'' @ nl)) w1
      | (None, w1) \<Rightarrow> w1)"

text \<open>The function of lines 329 to 335.\<close>

definition recompile ::
  "packages \<Rightarrow> string \<Rightarrow> string \<Rightarrow> path \<Rightarrow> string \<Rightarrow> bool \<Rightarrow> string \<Rightarrow> world \<Rightarrow> world"
where
  "recompile pk baseURL compiler filePath args showSource projectRoot w =
     compile_report pk baseURL compiler filePath args showSource projectRoot
       (emit (Print (esc @ ''[34m'' @ bolt @ '' '' @ filePath @ '' '' @ emdash @ '' ''
                     @ time_Format pk (now w) @ esc @ ''[0m'' @ nl @ nl))
          (clearScreen w))"

text \<open>
  \<open>watch\<close>; the deferred \<open>watcher.Close()\<close> runs at every return after the watcher
  was made.
\<close>

definition watch ::
  "packages \<Rightarrow> string \<Rightarrow> string \<Rightarrow> path \<Rightarrow> string \<Rightarrow> bool \<Rightarrow> string \<Rightarrow> input list \<Rightarrow> world \<Rightarrow>
   error option run \<times> world"
where
  "watch pk baseURL compiler filePath args showSource projectRoot ins w0 =
     (let w = emit WatcherNew w0 in
      case new_watcher w of
        Some e \<Rightarrow> (Returned (Some (Errorf ''failed to create watcher: '' (LibError e) '''')), w)
      | None \<Rightarrow>
          (case Abs w filePath of
             Inl e \<Rightarrow>
               (Returned (Some (Errorf ''failed to get absolute path: '' (LibError e) '''')),
                emit WatcherClose w)
           | Inr absPath \<Rightarrow>
               (let dir = Dir absPath; w1 = emit (WatcherAdd dir) w in
                case watcher_add w1 dir of
                  Some e \<Rightarrow>
                    (Returned (Some (Errorf ''failed to watch directory: '' (LibError e) '''')),
                     emit WatcherClose w1)
                | None \<Rightarrow>
                    (let w2 = emit (Print (esc @ ''[34m   Server: '' @ baseURL @ esc @ ''[0m'' @ nl @ nl))
                               (emit (Print (esc @ ''[34m   Args: '' @ args @ esc @ ''[0m'' @ nl))
                               (emit (Print (esc @ ''[34m   Compiler: '' @ compiler @ esc @ ''[0m'' @ nl))
                               (emit (Print (esc @ ''[34m'' @ bolt @ '' Watching '' @ filePath @ esc
                                             @ ''[0m'' @ nl)) w1)));
                         w3 = compile_report pk baseURL compiler filePath args showSource projectRoot w2
                     in case watch_loop
                               (recompile pk baseURL compiler filePath args showSource projectRoot)
                               absPath None ins w3 of
                          (Running, debounce, w4) \<Rightarrow> (Running, w4)
                        | (Returned r, debounce, w4) \<Rightarrow> (Returned r, emit WatcherClose w4)))))"

section \<open>main\<close>

text \<open>The flags after \<open>flag.Parse()\<close>; the positional arguments are a list.\<close>

record flags =
  flag_server :: string
  flag_compiler :: string
  flag_args :: string
  flag_once :: bool
  flag_source :: bool
  flag_root :: string

text \<open>\<open>flag.Usage\<close>, lines 355 to 365.\<close>

definition Usage :: "packages \<Rightarrow> world \<Rightarrow> world" where
  "Usage pk w =
     emit (PrintErr (''  cet -root=. src/main.zig   # Multi-file project with imports from repo root'' @ nl))
    (emit (PrintErr (''  cet -once -source main.zig'' @ nl))
    (emit (PrintErr (''  cet -compiler=g132 -args='' @ sq @ ''-O3'' @ sq @ '' main.c'' @ nl))
    (emit (PrintErr (''  cet -args='' @ sq @ ''-O ReleaseFast -target aarch64-macos -mcpu=apple_m4''
                     @ sq @ '' main.zig'' @ nl))
    (emit (PrintErr (nl @ ''Examples:'' @ nl))
    (emit (PrintErr (flag_PrintDefaults pk))
    (emit (PrintErr (''Options:'' @ nl))
    (emit (PrintErr (''Usage: cet [options] <file>'' @ nl @ nl))
    (emit (PrintErr (''cet - Compiler Explorer Terminal'' @ nl @ nl)) w))))))))"

text \<open>
  \<open>main\<close>: the exit status, when the program exits on the inputs given to the watch
  loop.  \<open>os.Exit(1)\<close> and the return from \<open>main\<close> both end the program.
\<close>

definition main :: "packages \<Rightarrow> flags \<Rightarrow> string list \<Rightarrow> input list \<Rightarrow> world \<Rightarrow> nat run \<times> world" where
  "main pk fl posargs ins w =
     (if length posargs < 1 then (Returned 1, Usage pk w)
      else
        (let filePath = hd posargs in
         if (case Stat (fsys w) filePath of None \<Rightarrow> False | Some e \<Rightarrow> is_not_exist e) then
           (Returned 1, emit (PrintErr (''Error: file '' @ filePath @ '' does not exist'' @ nl)) w)
         else if flag_once fl then
           (case compile pk (flag_server fl) (flag_compiler fl) filePath (flag_args fl)
                   (flag_source fl) (flag_root fl) w of
              (Some err, w1) \<Rightarrow> (Returned 1, emit (PrintErr (''Error: '' @ Error err @ nl)) w1)
            | (None, w1) \<Rightarrow> (Returned 0, w1))
         else
           (case watch pk (flag_server fl) (flag_compiler fl) filePath (flag_args fl)
                   (flag_source fl) (flag_root fl) ins w of
              (Returned (Some err), w1) \<Rightarrow> (Returned 1, emit (PrintErr (''Error: '' @ Error err @ nl)) w1)
            | (Returned None, w1) \<Rightarrow> (Returned 0, w1)
            | (Running, w1) \<Rightarrow> (Running, w1))))"

section \<open>The HTTP client\<close>

text \<open>
  The client of \<open>compile\<close> is \<open>&http.Client{}\<close>: it has no \<open>CheckRedirect\<close>, so one
  call of \<open>client.Do\<close> follows redirects under the default policy of net/http and can
  take several request/response cycles.  What one cycle sends is written here with its
  method and URL (headers and body are left out), and what comes back with its status
  code, the target of its \<open>Location\<close> header (\<open>None\<close> when there is none, otherwise
  what \<open>URL.Parse\<close> of the request makes of it: the URL of the next request, or an
  error) and its body as \<open>io.ReadAll\<close> reads it.  The network gives the answer to a
  request, or the error of sending it; the answer may depend on the requests sent
  before in the same call.
\<close>

record sent_request =
  SentMethod :: string
  SentURL :: string

record Response =
  StatusCode :: nat
  Location :: "(ext_error + string) option"
  ResponseBody :: "ext_error + string"

type_synonym network = "sent_request list \<Rightarrow> sent_request \<Rightarrow> ext_error + Response"

text \<open>
  \<open>redirectBehavior\<close> of net/http: the method of the next request and whether there
  is one.  A request other than GET or HEAD becomes a GET after 301, 302 and 303; after
  307 and 308 the method is kept and the body is sent again (the request of \<open>compile\<close>
  is made by \<open>http.NewRequest\<close> from a \<open>bytes.Buffer\<close>, so its \<open>GetBody\<close> is set).
\<close>

definition redirectBehavior :: "string \<Rightarrow> Response \<Rightarrow> string \<times> bool" where
  "redirectBehavior reqMethod resp =
     (if StatusCode resp = 301 \<or> StatusCode resp = 302 \<or> StatusCode resp = 303 then
        (if reqMethod \<noteq> ''GET'' \<and> reqMethod \<noteq> ''HEAD'' then ''GET'' else reqMethod, True)
      else if StatusCode resp = 307 \<or> StatusCode resp = 308 then (reqMethod, True)
      else ('''', False))"

text \<open>
  The default policy: a request is not sent when ten were sent before it.  (Of the
  error only the cause is kept; \<open>url.Error\<close> puts the operation and the URL in front.)
\<close>

definition defaultCheckRedirect :: "sent_request list \<Rightarrow> ext_error option" where
  "defaultCheckRedirect via =
     (if length via \<ge> 10 then Some (ExtError False ''stopped after 10 redirects'') else None)"

text \<open>
  The loop of \<open>Client.do\<close>, with the requests sent so far: the request is sent; an
  error of sending ends the call; a response that is no redirect, or a redirect with no
  \<open>Location\<close>, is returned; otherwise the next request is made and, when the policy
  allows it, the loop goes on with it.  The result is the requests sent and what
  \<open>Do\<close> returns, as in \<open>http_do\<close>.  (The program calls the builtin \<open>min\<close>, so
  it is built with Go 1.21 or later, where a redirect with no \<open>Location\<close> is
  returned as the response and not as an error.)
\<close>

function client_do ::
  "network \<Rightarrow> sent_request list \<Rightarrow> sent_request \<Rightarrow>
   sent_request list \<times> (ext_error + (ext_error + string))"
where
  "client_do net reqs req =
     (case net reqs req of
        Inl e \<Rightarrow> (reqs @ [req], Inl e)
      | Inr resp \<Rightarrow>
          (case redirectBehavior (SentMethod req) resp of
             (redirectMethod, shouldRedirect) \<Rightarrow>
               if \<not> shouldRedirect then (reqs @ [req], Inr (ResponseBody resp))
               else
                 (case Location resp of
                    None \<Rightarrow> (reqs @ [req], Inr (ResponseBody resp))
                  | Some (Inl e) \<Rightarrow> (reqs @ [req], Inl e)
                  | Some (Inr u) \<Rightarrow>
                      (case defaultCheckRedirect (reqs @ [req]) of
                         Some e \<Rightarrow> (reqs @ [req], Inl e)
                       | None \<Rightarrow>
                           client_do net (reqs @ [req])
                             \<lparr>SentMethod = redirectMethod, SentURL = u\<rparr>))))"
  by pat_completeness auto
termination
  by (relation "measure (\<lambda>(net, reqs, req). 10 - length reqs)")
     (auto simp: defaultCheckRedirect_def split: if_splits)

declare client_do.simps [simp del]

text \<open>
  \<open>client.Do\<close> for a request over a network: the requests it sends, and its result.
\<close>

definition round_trips :: "network \<Rightarrow> http_request \<Rightarrow> sent_request list" where
  "round_trips net q = fst (client_do net [] \<lparr>SentMethod = Method q, SentURL = URL q\<rparr>)"

definition Client_Do :: "network \<Rightarrow> http_request \<Rightarrow> ext_error + (ext_error + string)" where
  "Client_Do net q = snd (client_do net [] \<lparr>SentMethod = Method q, SentURL = URL q\<rparr>)"

section \<open>Reading the effects\<close>

text \<open>
  The requests handed to \<open>client.Do\<close> among some effects, in order; the number of
  invocations of \<open>compile\<close> among them; the effects that are output, and those that
  are output or a request; and the effects a run added to the world it started in.
\<close>

fun posted :: "effect list \<Rightarrow> http_request list" where
  "posted [] = []"
| "posted (HttpDo r # es) = r # posted es"
| "posted (e # es) = posted es"

definition compiles :: "effect list \<Rightarrow> nat" where
  "compiles es = count_list es CompileCalled"

fun is_print :: "effect \<Rightarrow> bool" where
  "is_print (Print s) = True"
| "is_print (PrintErr s) = True"
| "is_print ClearScreen = True"
| "is_print e = False"

fun is_io :: "effect \<Rightarrow> bool" where
  "is_io (Print s) = True"
| "is_io (PrintErr s) = True"
| "is_io ClearScreen = True"
| "is_io (HttpDo r) = True"
| "is_io e = False"

definition new_effects :: "world \<Rightarrow> world \<Rightarrow> effect list" where
  "new_effects w w' = drop (length (trace w)) (trace w')"

text \<open>\<open>extends w w' es\<close>: the world \<open>w'\<close> is \<open>w\<close> with the effects \<open>es\<close> added.\<close>

definition extends :: "world \<Rightarrow> world \<Rightarrow> effect list \<Rightarrow> bool" where
  "extends w w' es = (w' = w\<lparr>trace := trace w @ es\<rparr>)"

text \<open>
  The requests \<open>compile\<close> hands to \<open>client.Do\<close> for a source and a list of project
  files: one, when \<open>json.Marshal\<close> and \<open>http.NewRequest\<close> succeed, and none
  otherwise.
\<close>

definition posts_of ::
  "packages \<Rightarrow> string \<Rightarrow> string \<Rightarrow> string \<Rightarrow> string \<Rightarrow> FileEntry list \<Rightarrow> http_request list"
where
  "posts_of pk baseURL compiler args source projectFiles =
     (case json_Marshal pk (compileRequest source projectFiles args) of
        Inl e \<Rightarrow> []
      | Inr jsonData \<Rightarrow>
          (case url_Parse pk (baseURL @ ''/api/compiler/'' @ compiler @ ''/compile'') of
             Some e \<Rightarrow> []
           | None \<Rightarrow>
               [\<lparr>Method = ''POST'', URL = baseURL @ ''/api/compiler/'' @ compiler @ ''/compile'',
                 Header = [(''Content-Type'', ''application/json''), (''Accept'', ''application/json'')],
                 Body = jsonData\<rparr>]))"

text \<open>
  What \<open>compile\<close> reads before it builds the request: the source and the project
  files that go into the request (none when collecting them failed); \<open>None\<close> when
  \<open>compile\<close> returns before.
\<close>

definition compile_inputs :: "packages \<Rightarrow> path \<Rightarrow> string \<Rightarrow> world \<Rightarrow> (string \<times> FileEntry list) option" where
  "compile_inputs pk filePath projectRoot w =
     (case ReadFile (fsys w) filePath of
        Inl e \<Rightarrow> None
      | Inr source \<Rightarrow>
          (case Abs w filePath of
             Inl e \<Rightarrow> None
           | Inr absPath \<Rightarrow>
               (case (if projectRoot \<noteq> '''' then Abs w projectRoot else Inr (Dir absPath)) of
                  Inl e \<Rightarrow> None
                | Inr searchDir \<Rightarrow>
                    (case collectProjectFiles (filepath_Rel pk) (fsys w) searchDir absPath (Dir absPath) of
                       (projectFiles, Some err) \<Rightarrow> Some (source, [])
                     | (projectFiles, None) \<Rightarrow> Some (source, projectFiles)))))"

text \<open>
  The timers started among some effects, with their deadlines; the timers that are
  pending; a timer after the clock has reached \<open>T\<close>.
\<close>

fun scheduled :: "effect list \<Rightarrow> (nat \<times> nat) list" where
  "scheduled [] = []"
| "scheduled (TimerStart t d # es) = (t, d) # scheduled es"
| "scheduled (e # es) = scheduled es"

definition pending :: "world \<Rightarrow> timer list" where
  "pending w = filter (\<lambda>tm. status tm = Pending) (timers w)"

definition fire_due :: "nat \<Rightarrow> timer \<Rightarrow> timer" where
  "fire_due T tm = (if status tm = Pending \<and> deadline tm \<le> T then tm\<lparr>status := Fired\<rparr> else tm)"

text \<open>
  For the inputs the loop handles before it returns: the clock value at which the last
  event that met the condition of line 325 was handled (if there was one) and the clock
  at the end, from the clock \<open>t\<close> at the start; and the number of such events.
\<close>

fun trigger_history :: "path \<Rightarrow> nat \<Rightarrow> nat option \<Rightarrow> input list \<Rightarrow> nat option \<times> nat" where
  "trigger_history absPath t l [] = (l, t)"
| "trigger_history absPath t l (Elapse d # ins) = trigger_history absPath (t + d) l ins"
| "trigger_history absPath t l (FsEvent event # ins) =
     trigger_history absPath t (if triggers absPath event then Some t else l) ins"
| "trigger_history absPath t l (EventsClosed # ins) = (l, t)"
| "trigger_history absPath t l (WatcherError e # ins) = trigger_history absPath t l ins"
| "trigger_history absPath t l (ErrorsClosed # ins) = (l, t)"

fun trigger_count :: "path \<Rightarrow> input list \<Rightarrow> nat" where
  "trigger_count absPath [] = 0"
| "trigger_count absPath (FsEvent event # ins) =
     (if triggers absPath event then 1 else 0) + trigger_count absPath ins"
| "trigger_count absPath (EventsClosed # ins) = 0"
| "trigger_count absPath (ErrorsClosed # ins) = 0"
| "trigger_count absPath (i # ins) = trigger_count absPath ins"

text \<open>
  What the theorems ask of the function of a timer: it adds effects only, among them one
  invocation of \<open>compile\<close> and no new timer.
\<close>

definition compiles_once :: "(world \<Rightarrow> world) \<Rightarrow> bool" where
  "compiles_once f = (\<forall>w. \<exists>es. extends w (f w) es \<and> compiles es = 1 \<and> scheduled es = [])"

text \<open>One step of \<open>elapse\<close>: the timer \<open>t\<close> fires if it is pending and due at \<open>T\<close>.\<close>

definition due_step :: "(world \<Rightarrow> world) \<Rightarrow> nat \<Rightarrow> world \<Rightarrow> nat \<Rightarrow> world" where
  "due_step f T w' t =
     (if t < length (timers w') \<and> status (timers w' ! t) = Pending \<and> deadline (timers w' ! t) \<le> T
      then fire f t w' else w')"

text \<open>
  The state of the debouncing when the last event that met the condition was handled
  at the clock value \<open>l\<close> (\<open>None\<close>: there was none yet): the variable \<open>debounce\<close> is
  nil and no timer is pending; or it is the timer made last, whose deadline is 100
  milliseconds after \<open>l\<close>, which is pending until the clock reaches that deadline and
  has fired from then on, and no other timer is pending.
\<close>

definition debounce_state :: "world \<Rightarrow> nat option \<Rightarrow> nat option \<Rightarrow> bool" where
  "debounce_state w debounce l =
     (case l of
        None \<Rightarrow> debounce = None \<and> pending w = []
      | Some t0 \<Rightarrow>
          timers w \<noteq> [] \<and> debounce = Some (length (timers w) - 1) \<and>
          list_all (\<lambda>tm. status tm \<noteq> Pending) (butlast (timers w)) \<and>
          last (timers w) =
            \<lparr>deadline = t0 + 100, status = (if now w < t0 + 100 then Pending else Fired)\<rparr>)"

section \<open>Example inputs\<close>

text \<open>
  A stand-in for \<open>filepath.Rel\<close> in the examples: what \<open>Rel\<close> returns when the
  target lies below the base path and both are clean.
\<close>

definition Rel_below :: "path \<Rightarrow> path \<Rightarrow> ext_error + path" where
  "Rel_below basepath targpath =
     (if prefix (basepath @ [Separator]) targpath
      then Inr (drop (length basepath + 1) targpath)
      else Inl (ExtError False ''Rel: target is not below the base path''))"

text \<open>
  A project directory \<open>/p\<close>: a \<open>.git\<close> directory, sources in Zig, one of them a
  symbolic link, a \<open>build.zig\<close>, a text file and a subdirectory.
\<close>

definition project_tree :: fsnode where
  "project_tree =
     Directory None
       [(''.git'', Directory None [(''hook.zig'', File Regular)]),
        (''a.zig'', File Regular),
        (''build.zig'', File Regular),
        (''link.zig'', File Symlink),
        (''main.zig'', File Regular),
        (''notes.txt'', File Regular),
        (''src'', Directory None [(''util.zig'', File Regular)])]"

definition project_fs :: filesystem where
  "project_fs =
     \<lparr>Lstat = (\<lambda>p. if p = ''/p'' then Inr project_tree
                   else if p = ''/p/src'' then Inr (Directory None [(''util.zig'', File Regular)])
                   else Inl (ExtError True ''no such file or directory'')),
      ReadFile = (\<lambda>p. Inr (''// '' @ p)),
      Stat = (\<lambda>p. None)\<rparr>"

text \<open>A directory \<open>/p\<close> that holds the main file and a symbolic link to a source.\<close>

definition symlink_fs :: filesystem where
  "symlink_fs =
     \<lparr>Lstat = (\<lambda>p. if p = ''/p''
                   then Inr (Directory None [(''link.zig'', File Symlink), (''main.zig'', File Regular)])
                   else Inl (ExtError True ''no such file or directory'')),
      ReadFile = (\<lambda>p. Inr (''// '' @ p)),
      Stat = (\<lambda>p. None)\<rparr>"

text \<open>
  Packages for the examples: a toy encoding of the request (source, arguments and file
  names), a parser that returns the body as one line of assembly, a URL check and a
  highlighter that accept everything.
\<close>

definition example_packages :: packages where
  "example_packages =
     \<lparr>filepath_Rel = Rel_below,
      json_Marshal = (\<lambda>r. Inr (Source r @ ''|'' @ UserArguments (Options r) @ ''|''
                                 @ concat (map (\<lambda>f. Filename f @ '';'') (Files r)))),
      json_Unmarshal = (\<lambda>b. Inr \<lparr>Code = 0, Stdout = [], Stderr = [],
                                   Asm = [\<lparr>AsmText = b, AsmSource = None\<rparr>]\<rparr>),
      url_Parse = (\<lambda>u. None),
      strings_ToLower = (\<lambda>s. s),
      chroma = (\<lambda>language code. Inr code),
      flag_PrintDefaults = ''  -once'',
      time_Format = (\<lambda>t. ''12:00:00'')\<rparr>"

text \<open>
  A world at program start: the project of \<open>project_fs\<close>, the working directory
  \<open>/p\<close>, a server that answers every request with \<open>ret\<close>, a watcher that works, no
  timers and no effects.
\<close>

definition example_world :: world where
  "example_world =
     \<lparr>fsys = project_fs,
      getwd = Inr ''/p'',
      http_do = (\<lambda>q. Inr (Inr ''ret'')),
      new_watcher = None,
      watcher_add = (\<lambda>d. None),
      now = 0,
      timers = [],
      trace = []\<rparr>"

text \<open>The same world, where the file \<open>/p/a.zig\<close> cannot be read.\<close>

definition unreadable_world :: world where
  "unreadable_world =
     example_world\<lparr>fsys := project_fs\<lparr>ReadFile :=
        (\<lambda>p. if p = ''/p/a.zig'' then Inl (ExtError False ''open /p/a.zig: permission denied'')
             else Inr (''// '' @ p))\<rparr>\<rparr>"


text \<open>The world after a first compile, which showed the source and passed other arguments.\<close>

definition after_compile :: world where
  "after_compile =
     snd (compile example_packages ''https://godbolt.org'' ''ztrunk'' ''main.zig'' ''-O0'' True ''''
            example_world)"

text \<open>
  Events on the watched file \<open>/p/main.zig\<close> and on another file: a write, a change of
  mode, a write together with a change of mode, a removal together with a rename.
\<close>

definition write_main :: Event where
  "write_main = \<lparr>EventName = ''/p/main.zig'', EventOp = fsnotify_Write\<rparr>"






text \<open>The function of the timers in the examples.\<close>

definition example_recompile :: "world \<Rightarrow> world" where
  "example_recompile =
     recompile example_packages ''https://godbolt.org'' ''ztrunk'' ''main.zig'' ''-O3'' False ''''"

text \<open>
  Two writes 50 milliseconds apart, then 60 and 40 milliseconds of waiting: the first
  timer is stopped by the second write; the second is pending at 110 and fires at 150.
\<close>

definition two_writes :: "input list" where
  "two_writes = [FsEvent write_main, Elapse 50, FsEvent write_main, Elapse 60]"

text \<open>
  The default flags (watch mode) and the flags of \<open>cet -once\<close>; a world in which no
  watcher can be made.
\<close>

definition watch_flags :: flags where
  "watch_flags =
     \<lparr>flag_server = ''https://godbolt.org'', flag_compiler = ''ztrunk'', flag_args = ''-O3'',
      flag_once = False, flag_source = False, flag_root = ''''\<rparr>"

definition once_flags :: flags where
  "once_flags = watch_flags\<lparr>flag_once := True\<rparr>"

definition no_watcher_world :: world where
  "no_watcher_world = example_world\<lparr>new_watcher := Some (ExtError False ''too many open files'')\<rparr>"

text \<open>
  A server that answers the first request of a call with 307 (Temporary Redirect) to
  the URL of the request and the next one with the response \<open>ret\<close>; a server at
  \<open>http://godbolt.org\<close> that redirects with 301 to \<open>https://godbolt.org\<close>; a server
  that redirects every request to itself; and the example world over the first.
\<close>

definition redirect_net :: network where
  "redirect_net via req =
     (if via = []
      then Inr \<lparr>StatusCode = 307, Location = Some (Inr (SentURL req)), ResponseBody = Inr ''''\<rparr>
      else Inr \<lparr>StatusCode = 200, Location = None, ResponseBody = Inr ''ret''\<rparr>)"

definition moved_net :: network where
  "moved_net via req =
     (if prefix ''http://godbolt.org'' (SentURL req)
      then Inr \<lparr>StatusCode = 301,
                Location = Some (Inr (''https://godbolt.org'' @ drop 18 (SentURL req))),
                ResponseBody = Inr ''''\<rparr>
      else Inr \<lparr>StatusCode = 405, Location = None, ResponseBody = Inr ''Method Not Allowed''\<rparr>)"

definition loop_net :: network where
  "loop_net via req =
     Inr \<lparr>StatusCode = 308, Location = Some (Inr (SentURL req)), ResponseBody = Inr ''''\<rparr>"


section \<open>The path functions on the cases of path/filepath\<close>

text \<open>
  The path functions above are written from the documentation of path/filepath; these
  are cases of the package's own test tables for Unix.
\<close>

lemma Clean_cases:
  "map Clean [''abc'', ''abc/def'', ''a/b/c'', ''.'', ''..'', ''../..'', ''../../abc'', ''/abc'', ''/'', '''',
     ''abc/'', ''abc/def/'', ''a/b/c/'', ''./'', ''../'', ''../../'', ''/abc/'',
     ''abc//def//ghi'', ''//abc'', ''///abc'', ''//abc//'', ''abc//'',
     ''abc/./def'', ''/./abc/def'', ''abc/.'',
     ''abc/def/ghi/../jkl'', ''abc/def/../ghi/../jkl'', ''abc/def/..'', ''abc/def/../..'',
     ''/abc/def/../..'', ''abc/def/../../..'', ''/abc/def/../../..'',
     ''abc/def/../../../ghi/jkl/../../../mno'', ''/../abc'',
     ''abc/./../def'', ''abc//./../def'', ''abc/../../././../def''] =
   [''abc'', ''abc/def'', ''a/b/c'', ''.'', ''..'', ''../..'', ''../../abc'', ''/abc'', ''/'', ''.'',
     ''abc'', ''abc/def'', ''a/b/c'', ''.'', ''..'', ''../..'', ''/abc'',
     ''abc/def/ghi'', ''/abc'', ''/abc'', ''/abc'', ''abc'',
     ''abc/def'', ''/abc/def'', ''abc'',
     ''abc/def/jkl'', ''abc/jkl'', ''abc'', ''.'',
     ''/'', ''..'', ''/'',
     ''../../mno'', ''/abc'',
     ''def'', ''def'', ''../../def'']"
  by code_simp

lemma Base_cases:
  "map Base ['''', ''.'', ''/.'', ''/'', ''////'', ''x/'', ''abc'', ''abc/def'', ''a/b/.x'', ''a/b/c.'',
     ''a/b/c.x''] =
   [''.'', ''.'', ''.'', ''/'', ''/'', ''x'', ''abc'', ''def'', ''.x'', ''c.'', ''c.x'']"
  by code_simp

lemma Dir_cases:
  "map Dir ['''', ''.'', ''/.'', ''/'', ''/foo'', ''x/'', ''abc'', ''abc/def'', ''a/b/.x'', ''a/b/c.'',
     ''a/b/c.x''] =
   [''.'', ''.'', ''/'', ''/'', ''/'', ''x'', ''.'', ''abc'', ''a/b'', ''a/b'', ''a/b'']"
  by code_simp

lemma Ext_cases:
  "map Ext [''path.go'', ''path.pb.go'', ''a.dir/b'', ''a.dir/b.go'', ''a.dir/''] =
   [''.go'', ''.go'', '''', ''.go'', '''']"
  by code_simp

lemma Join_cases:
  "map Join [[], [''''], [''/''], [''a''], [''a'', ''b''], [''a'', ''''], ['''', ''b''], [''/'', ''a''],
     [''/'', ''a/b''], [''/'', ''''], [''/a'', ''b''], [''a'', ''/b''], [''/a'', ''/b''], [''a/'', ''b''],
     [''a/'', ''''], ['''', '''']] =
   ['''', '''', ''/'', ''a'', ''a/b'', ''a'', ''b'', ''/a'', ''/a/b'', ''/'', ''/a/b'', ''a/b'', ''/a/b'',
     ''a/b'', ''a'', '''']"
  by code_simp


section \<open>Properties of collectProjectFiles\<close>

subsection \<open>Every entry of the result comes from an accepted entry of the walk\<close>

lemma visit_file:
  assumes "collectVisit rel fs ext mainFile rd p (Some \<lparr>Name = n, IsDir = False\<rparr>) None files = (err, out)"
    and "list_all (\<lambda>d. \<not> skipDirs_at d) dirs"
  shows "\<exists>new cs. out = files @ new \<and> subseq cs [\<lparr>wpath = p, wname = n, wdirs = dirs, wtype = t\<rparr>]
            \<and> list_all2 (accepted rel fs ext mainFile rd) new cs"
proof (cases "out = files")
  case True
  then have "out = files @ [] \<and> subseq [] [\<lparr>wpath = p, wname = n, wdirs = dirs, wtype = t\<rparr>]
     \<and> list_all2 (accepted rel fs ext mainFile rd) [] []" by simp
  then show ?thesis by blast
next
  case False
  with assms(1) obtain content relPath where
    r: "ReadFile fs p = Inr content" "rel rd p = Inr relPath"
       "out = files @ [\<lparr>Filename = relPath, Contents = content\<rparr>]"
       "Ext p = ext" "p \<noteq> mainFile" "n \<noteq> ''build.zig''"
    by (auto split: if_splits sum.splits)
  let ?c = "\<lparr>wpath = p, wname = n, wdirs = dirs, wtype = t\<rparr>"
  have "accepted rel fs ext mainFile rd \<lparr>Filename = relPath, Contents = content\<rparr> ?c"
    using r assms(2) by (simp add: accepted_def read_from_def)
  then have "out = files @ [\<lparr>Filename = relPath, Contents = content\<rparr>] \<and> subseq [?c] [?c]
     \<and> list_all2 (accepted rel fs ext mainFile rd) [\<lparr>Filename = relPath, Contents = content\<rparr>] [?c]"
    using r by simp
  then show ?thesis by blast
qed

lemma visit_dir:
  assumes "collectVisit rel fs ext mainFile rd p (Some \<lparr>Name = n, IsDir = True\<rparr>) e files = (err, out)"
  shows "out = files \<and> (e = None \<longrightarrow> err = None \<longrightarrow> \<not> skipDirs_at n) \<and> (e \<noteq> None \<longrightarrow> err \<noteq> None)"
proof (cases e)
  case None
  with assms show ?thesis by (auto split: if_splits)
next
  case (Some a)
  with assms show ?thesis by auto
qed

lemma walk_sources:
  shows "fn = collectVisit rel fs ext mainFile rd \<Longrightarrow> walkDir fn p n node files = (err, out) \<Longrightarrow> list_all (\<lambda>d. \<not> skipDirs_at d) dirs \<Longrightarrow>
           \<exists>new cs. out = files @ new \<and> subseq cs (files_under p n dirs node) \<and> list_all2 (accepted rel fs ext mainFile rd) new cs"
    and "fn = collectVisit rel fs ext mainFile rd \<Longrightarrow> walkEntries fn p ents files = (err, out) \<Longrightarrow> list_all (\<lambda>d. \<not> skipDirs_at d) dirs \<Longrightarrow>
           \<exists>new cs. out = files @ new \<and> subseq cs (entries_under p dirs ents) \<and> list_all2 (accepted rel fs ext mainFile rd) new cs"
proof (induction fn p n node files and fn p ents files arbitrary: err out dirs and err out dirs rule: walkDir_walkEntries.induct)
  case (1 fn p n t s)
  then have "collectVisit rel fs ext mainFile rd p (Some \<lparr>Name = n, IsDir = False\<rparr>) None s = (err, out)"
    by (simp del: collectVisit.simps)
  from visit_file[OF this "1.prems"(3), of t] show ?case by (simp del: collectVisit.simps)
next
  case (2 fn p n rderr ents s)
  let ?d = "Some (entry_of n (Directory rderr ents))"
  obtain e1 s1 where v1: "fn p ?d None s = (e1, s1)" by (cases "fn p ?d None s")
  from v1 "2.prems"(1) have "collectVisit rel fs ext mainFile rd p (Some \<lparr>Name = n, IsDir = True\<rparr>) None s = (e1, s1)"
    by (simp del: collectVisit.simps)
  from visit_dir[OF this]
  have s1: "s1 = s" and sk: "e1 = None \<Longrightarrow> \<not> skipDirs_at n" by auto
  from "2.prems"(2) v1 have w0: "(case (e1, s1) of
        (Some err, s1) \<Rightarrow> (if err = SkipDir then (None, s1) else (Some err, s1))
      | (None, s1) \<Rightarrow>
          (case rderr of
             None \<Rightarrow> walkEntries fn p ents s1
           | Some e \<Rightarrow>
               (case fn p ?d (Some (LibError e)) s1 of
                  (Some err, s2) \<Rightarrow> (if err = SkipDir then (None, s2) else (Some err, s2))
                | (None, s2) \<Rightarrow> walkEntries fn p ents s2))) = (err, out)"
    by (simp del: collectVisit.simps)
  show ?case
  proof (cases e1)
    case (Some a)
    with w0 s1 have "out = s" by (auto split: if_splits)
    then have "out = s @ [] \<and> subseq [] (files_under p n dirs (Directory rderr ents))
        \<and> list_all2 (accepted rel fs ext mainFile rd) [] []" by simp
    then show ?thesis by blast
  next
    case None
    note e1 = this
    have dirs': "list_all (\<lambda>d. \<not> skipDirs_at d) (dirs @ [n])" using "2.prems"(3) sk[OF e1] by simp
    show ?thesis
    proof (cases rderr)
      case None
      with w0 e1 have w: "walkEntries fn p ents s1 = (err, out)" by simp
      from "2.IH"(1)[OF v1[symmetric] e1 None "2.prems"(1) w dirs'] s1
      show ?thesis by simp
    next
      case (Some e)
      obtain e2 s2 where v2: "fn p ?d (Some (LibError e)) s1 = (e2, s2)" by (cases "fn p ?d (Some (LibError e)) s1")
      with "2.prems"(1) have "collectVisit rel fs ext mainFile rd p (Some \<lparr>Name = n, IsDir = True\<rparr>) (Some (LibError e)) s1 = (e2, s2)"
        by (simp del: collectVisit.simps)
      from visit_dir[OF this]
      have "s2 = s1" "e2 \<noteq> None" by auto
      with w0 e1 s1 Some v2 have "out = s" by (auto split: if_splits simp del: collectVisit.simps)
      then have "out = s @ [] \<and> subseq [] (files_under p n dirs (Directory rderr ents))
        \<and> list_all2 (accepted rel fs ext mainFile rd) [] []" by simp
      then show ?thesis by blast
    qed
  qed
next
  case (3 fn p s)
  then have "out = s @ [] \<and> subseq [] (entries_under p dirs [])
        \<and> list_all2 (accepted rel fs ext mainFile rd) [] []" by simp
  then show ?case by blast
next
  case (4 fn p ent rest s)
  obtain e1 s1 where w1: "walkDir fn (Join [p, fst ent]) (fst ent) (snd ent) s = (e1, s1)"
    by (cases "walkDir fn (Join [p, fst ent]) (fst ent) (snd ent) s")
  from "4.IH"(1)[OF "4.prems"(1) w1 "4.prems"(3)]
  obtain new1 cs1 where a: "s1 = s @ new1" "subseq cs1 (files_under (Join [p, fst ent]) (fst ent) dirs (snd ent))"
     "list_all2 (accepted rel fs ext mainFile rd) new1 cs1" by blast
  show ?case
  proof (cases e1)
    case (Some a')
    with "4.prems"(2) w1 have "out = s1" by (auto split: if_splits)
    with a have "out = s @ new1 \<and> subseq cs1 (entries_under p dirs (ent # rest))
        \<and> list_all2 (accepted rel fs ext mainFile rd) new1 cs1"
      by (simp add: list_emb_prefix)
    then show ?thesis by blast
  next
    case None
    with "4.prems"(2) w1 have w2: "walkEntries fn p rest s1 = (err, out)" by simp
    from "4.IH"(2)[OF w1[symmetric] None "4.prems"(1) w2 "4.prems"(3)]
    obtain new2 cs2 where b: "out = s1 @ new2" "subseq cs2 (entries_under p dirs rest)"
     "list_all2 (accepted rel fs ext mainFile rd) new2 cs2" by blast
    from a b have "out = s @ (new1 @ new2) \<and> subseq (cs1 @ cs2) (entries_under p dirs (ent # rest))
        \<and> list_all2 (accepted rel fs ext mainFile rd) (new1 @ new2) (cs1 @ cs2)"
      by (simp add: list_all2_appendI list_emb_append_mono)
    then show ?thesis by blast
  qed
qed

lemma collect_sources:
  "\<exists>cs. subseq cs (walked_files fs searchDir) \<and>
        list_all2 (accepted rel fs (Ext mainFile) mainFile relativeToDir)
          (fst (collectProjectFiles rel fs searchDir mainFile relativeToDir)) cs"
proof (cases "Lstat fs searchDir")
  case (Inl e)
  then have "fst (collectProjectFiles rel fs searchDir mainFile relativeToDir) = []"
    by (simp add: collectProjectFiles_def WalkDir_def split: if_splits)
  then have "subseq [] (walked_files fs searchDir) \<and>
        list_all2 (accepted rel fs (Ext mainFile) mainFile relativeToDir)
          (fst (collectProjectFiles rel fs searchDir mainFile relativeToDir)) []" by simp
  then show ?thesis by blast
next
  case (Inr node)
  let ?V = "collectVisit rel fs (Ext mainFile) mainFile relativeToDir"
  obtain e1 s1 where w: "walkDir ?V searchDir (Base searchDir) node [] = (e1, s1)"
    by (cases "walkDir ?V searchDir (Base searchDir) node []")
  from walk_sources(1)[OF refl w, of "[]"]
  obtain cs where cs: "subseq cs (files_under searchDir (Base searchDir) [] node)"
    "list_all2 (accepted rel fs (Ext mainFile) mainFile relativeToDir) s1 cs" by auto
  have "fst (collectProjectFiles rel fs searchDir mainFile relativeToDir) = s1"
    using Inr w by (simp add: collectProjectFiles_def WalkDir_def split: option.splits if_splits)
  with cs Inr have "subseq cs (walked_files fs searchDir) \<and>
        list_all2 (accepted rel fs (Ext mainFile) mainFile relativeToDir)
          (fst (collectProjectFiles rel fs searchDir mainFile relativeToDir)) cs"
    by (simp add: walked_files_def)
  then show ?thesis by blast
qed

lemma skipDirs_at_iff:
  "skipDirs_at n \<longleftrightarrow>
     n \<in> {''.zig-cache'', ''.git'', ''.idea'', ''node_modules'', ''target'', ''zig-out''}"
  by (simp add: skipDirs_at_def skipDirs_def)

lemma project_collect:
  "collectProjectFiles Rel_below project_fs ''/p'' ''/p/main.zig'' ''/p'' =
     ([\<lparr>Filename = ''a.zig'', Contents = ''// /p/a.zig''\<rparr>,
       \<lparr>Filename = ''link.zig'', Contents = ''// /p/link.zig''\<rparr>,
       \<lparr>Filename = ''src/util.zig'', Contents = ''// /p/src/util.zig''\<rparr>], None)"
  by code_simp

lemma project_walked:
  "walked_files project_fs ''/p'' =
     [\<lparr>wpath = ''/p/.git/hook.zig'', wname = ''hook.zig'', wdirs = [''p'', ''.git''], wtype = Regular\<rparr>,
      \<lparr>wpath = ''/p/a.zig'', wname = ''a.zig'', wdirs = [''p''], wtype = Regular\<rparr>,
      \<lparr>wpath = ''/p/build.zig'', wname = ''build.zig'', wdirs = [''p''], wtype = Regular\<rparr>,
      \<lparr>wpath = ''/p/link.zig'', wname = ''link.zig'', wdirs = [''p''], wtype = Symlink\<rparr>,
      \<lparr>wpath = ''/p/main.zig'', wname = ''main.zig'', wdirs = [''p''], wtype = Regular\<rparr>,
      \<lparr>wpath = ''/p/notes.txt'', wname = ''notes.txt'', wdirs = [''p''], wtype = Regular\<rparr>,
      \<lparr>wpath = ''/p/src/util.zig'', wname = ''util.zig'', wdirs = [''p'', ''src''], wtype = Regular\<rparr>]"
  by code_simp

lemma project_src_collect:
  "collectProjectFiles Rel_below project_fs ''/p/src'' ''/p/main.zig'' ''/p'' =
     ([\<lparr>Filename = ''src/util.zig'', Contents = ''// /p/src/util.zig''\<rparr>], None)"
  by code_simp

subsection \<open>Claims about collectProjectFiles\<close>

text \<open>
  Claim C1, as the claim states it, fails on the code: the closure tests
  \<open>d.IsDir()\<close> only, so an entry that is not a directory and not a regular file is
  collected when \<open>os.ReadFile\<close> can read it.  In the directory \<open>/p\<close> of
  \<open>symlink_fs\<close> the one entry returned is the symbolic link \<open>link.zig\<close>.
\<close>

theorem collect_symlink_counterexample:
  "collectProjectFiles Rel_below symlink_fs ''/p'' ''/p/main.zig'' ''/p'' =
     ([\<lparr>Filename = ''link.zig'', Contents = ''// /p/link.zig''\<rparr>], None) \<and>
   walked_files symlink_fs ''/p'' =
     [\<lparr>wpath = ''/p/link.zig'', wname = ''link.zig'', wdirs = [''p''], wtype = Symlink\<rparr>,
      \<lparr>wpath = ''/p/main.zig'', wname = ''main.zig'', wdirs = [''p''], wtype = Regular\<rparr>]"
  by code_simp

text \<open>
  Claim C1, amended: for every search directory, main file and relative-to directory,
  the entries of the list returned by \<open>collectProjectFiles\<close> are read, one by one and
  in the order of the walk, from entries below the search directory that are not
  directories (regular files, and also symbolic links and other special files that can
  be read); the path of each has the extension of the main file, and none of them has
  the path of the main file.
\<close>

theorem collect_extension_and_not_main:
  "\<exists>cs. subseq cs (walked_files fs searchDir) \<and>
        list_all2
          (\<lambda>e c. read_from rel fs relativeToDir e c \<and>
                 Ext (wpath c) = Ext mainFile \<and> wpath c \<noteq> mainFile)
          (fst (collectProjectFiles rel fs searchDir mainFile relativeToDir)) cs"
proof -
  from collect_sources[of fs searchDir rel mainFile relativeToDir]
  obtain cs where cs: "subseq cs (walked_files fs searchDir)"
    "list_all2 (accepted rel fs (Ext mainFile) mainFile relativeToDir)
       (fst (collectProjectFiles rel fs searchDir mainFile relativeToDir)) cs"
    by blast
  from cs(2) have
    "list_all2
       (\<lambda>e c. read_from rel fs relativeToDir e c \<and>
              Ext (wpath c) = Ext mainFile \<and> wpath c \<noteq> mainFile)
       (fst (collectProjectFiles rel fs searchDir mainFile relativeToDir)) cs"
    by (rule list_all2_mono) (simp add: accepted_def)
  with cs(1) show ?thesis by blast
qed

theorem collect_extension_and_not_main_witness:
  "fst (collectProjectFiles Rel_below project_fs ''/p'' ''/p/main.zig'' ''/p'') =
     [\<lparr>Filename = ''a.zig'', Contents = ''// /p/a.zig''\<rparr>,
      \<lparr>Filename = ''link.zig'', Contents = ''// /p/link.zig''\<rparr>,
      \<lparr>Filename = ''src/util.zig'', Contents = ''// /p/src/util.zig''\<rparr>] \<and>
   (\<exists>cs. subseq cs (walked_files project_fs ''/p'') \<and>
         list_all2
           (\<lambda>e c. read_from Rel_below project_fs ''/p'' e c \<and>
                  Ext (wpath c) = Ext ''/p/main.zig'' \<and> wpath c \<noteq> ''/p/main.zig'')
           (fst (collectProjectFiles Rel_below project_fs ''/p'' ''/p/main.zig'' ''/p'')) cs)"
  using collect_extension_and_not_main[of project_fs "''/p''" Rel_below "''/p''" "''/p/main.zig''"]
  by (simp add: project_collect)

text \<open>
  Claim C2: for every input, the entries of the list returned by
  \<open>collectProjectFiles\<close> are read from entries of the walk above which, from the
  search directory down, no directory is named \<open>.zig-cache\<close>, \<open>.git\<close>, \<open>.idea\<close>,
  \<open>node_modules\<close>, \<open>target\<close> or \<open>zig-out\<close>: no file under such a directory
  appears in the list.
\<close>

theorem collect_skips_directories:
  "\<exists>cs. subseq cs (walked_files fs searchDir) \<and>
        list_all2
          (\<lambda>e c. read_from rel fs relativeToDir e c \<and>
                 set (wdirs c) \<inter>
                   {''.zig-cache'', ''.git'', ''.idea'', ''node_modules'', ''target'', ''zig-out''} = {})
          (fst (collectProjectFiles rel fs searchDir mainFile relativeToDir)) cs"
proof -
  from collect_sources[of fs searchDir rel mainFile relativeToDir]
  obtain cs where cs: "subseq cs (walked_files fs searchDir)"
    "list_all2 (accepted rel fs (Ext mainFile) mainFile relativeToDir)
       (fst (collectProjectFiles rel fs searchDir mainFile relativeToDir)) cs"
    by blast
  have skip: "set ds \<inter>
        {''.zig-cache'', ''.git'', ''.idea'', ''node_modules'', ''target'', ''zig-out''} = {}"
    if "list_all (\<lambda>d. \<not> skipDirs_at d) ds" for ds
    using that unfolding list_all_iff skipDirs_at_iff by blast
  from cs(2) have
    "list_all2
       (\<lambda>e c. read_from rel fs relativeToDir e c \<and>
              set (wdirs c) \<inter>
                {''.zig-cache'', ''.git'', ''.idea'', ''node_modules'', ''target'', ''zig-out''} = {})
       (fst (collectProjectFiles rel fs searchDir mainFile relativeToDir)) cs"
    by (rule list_all2_mono) (simp add: accepted_def skip)
  with cs(1) show ?thesis by blast
qed

text \<open>
  In \<open>/p\<close> of \<open>project_fs\<close> the file \<open>.git/hook.zig\<close> has the extension of the
  main file and is an entry of the walk; it is not in the result.
\<close>

theorem collect_skips_directories_witness:
  "\<lparr>wpath = ''/p/.git/hook.zig'', wname = ''hook.zig'', wdirs = [''p'', ''.git''], wtype = Regular\<rparr>
     \<in> set (walked_files project_fs ''/p'') \<and>
   map Filename (fst (collectProjectFiles Rel_below project_fs ''/p'' ''/p/main.zig'' ''/p'')) =
     [''a.zig'', ''link.zig'', ''src/util.zig''] \<and>
   (\<exists>cs. subseq cs (walked_files project_fs ''/p'') \<and>
         list_all2
           (\<lambda>e c. read_from Rel_below project_fs ''/p'' e c \<and>
                  set (wdirs c) \<inter>
                    {''.zig-cache'', ''.git'', ''.idea'', ''node_modules'', ''target'', ''zig-out''} = {})
           (fst (collectProjectFiles Rel_below project_fs ''/p'' ''/p/main.zig'' ''/p'')) cs)"
  using collect_skips_directories[of project_fs "''/p''" Rel_below "''/p''" "''/p/main.zig''"]
  by (simp add: project_collect project_walked)

text \<open>
  Claim C3: \<open>collectProjectFiles\<close> returns a flat list of entries (a list of pairs of
  strings); each entry is read from an entry of the walk, its \<open>Filename\<close> is what
  \<open>filepath.Rel\<close> returns for the relative-to directory and the path of that entry,
  and its \<open>Contents\<close> is what \<open>os.ReadFile\<close> returns for that path.
\<close>

theorem collect_filename_and_contents:
  "\<exists>cs. subseq cs (walked_files fs searchDir) \<and>
        list_all2
          (\<lambda>e c. rel relativeToDir (wpath c) = Inr (Filename e) \<and>
                 ReadFile fs (wpath c) = Inr (Contents e))
          (fst (collectProjectFiles rel fs searchDir mainFile relativeToDir)) cs"
proof -
  from collect_sources[of fs searchDir rel mainFile relativeToDir]
  obtain cs where cs: "subseq cs (walked_files fs searchDir)"
    "list_all2 (accepted rel fs (Ext mainFile) mainFile relativeToDir)
       (fst (collectProjectFiles rel fs searchDir mainFile relativeToDir)) cs"
    by blast
  from cs(2) have
    "list_all2
       (\<lambda>e c. rel relativeToDir (wpath c) = Inr (Filename e) \<and>
              ReadFile fs (wpath c) = Inr (Contents e))
       (fst (collectProjectFiles rel fs searchDir mainFile relativeToDir)) cs"
    by (rule list_all2_mono) (simp add: accepted_def read_from_def)
  with cs(1) show ?thesis by blast
qed

theorem collect_filename_and_contents_witness:
  "fst (collectProjectFiles Rel_below project_fs ''/p/src'' ''/p/main.zig'' ''/p'') =
     [\<lparr>Filename = ''src/util.zig'', Contents = ''// /p/src/util.zig''\<rparr>] \<and>
   (\<exists>cs. subseq cs (walked_files project_fs ''/p/src'') \<and>
         list_all2
           (\<lambda>e c. Rel_below ''/p'' (wpath c) = Inr (Filename e) \<and>
                  ReadFile project_fs (wpath c) = Inr (Contents e))
           (fst (collectProjectFiles Rel_below project_fs ''/p/src'' ''/p/main.zig'' ''/p'')) cs)"
  using collect_filename_and_contents[of project_fs "''/p/src''" Rel_below "''/p''" "''/p/main.zig''"]
  by (simp add: project_src_collect)

text \<open>
  Claim C9: no entry of the list returned by \<open>collectProjectFiles\<close> is read from an
  entry named \<open>build.zig\<close>, whatever the extension of the main file.
\<close>

theorem collect_never_build_zig:
  "\<exists>cs. subseq cs (walked_files fs searchDir) \<and>
        list_all2
          (\<lambda>e c. read_from rel fs relativeToDir e c \<and> wname c \<noteq> ''build.zig'')
          (fst (collectProjectFiles rel fs searchDir mainFile relativeToDir)) cs"
proof -
  from collect_sources[of fs searchDir rel mainFile relativeToDir]
  obtain cs where cs: "subseq cs (walked_files fs searchDir)"
    "list_all2 (accepted rel fs (Ext mainFile) mainFile relativeToDir)
       (fst (collectProjectFiles rel fs searchDir mainFile relativeToDir)) cs"
    by blast
  from cs(2) have
    "list_all2
       (\<lambda>e c. read_from rel fs relativeToDir e c \<and> wname c \<noteq> ''build.zig'')
       (fst (collectProjectFiles rel fs searchDir mainFile relativeToDir)) cs"
    by (rule list_all2_mono) (simp add: accepted_def)
  with cs(1) show ?thesis by blast
qed

text \<open>
  In \<open>/p\<close> of \<open>project_fs\<close> the main file is a Zig file and \<open>build.zig\<close> is an entry
  of the walk with its extension; it is not in the result.
\<close>

theorem collect_never_build_zig_witness:
  "\<lparr>wpath = ''/p/build.zig'', wname = ''build.zig'', wdirs = [''p''], wtype = Regular\<rparr>
     \<in> set (walked_files project_fs ''/p'') \<and>
   Ext ''/p/build.zig'' = Ext ''/p/main.zig'' \<and>
   map Filename (fst (collectProjectFiles Rel_below project_fs ''/p'' ''/p/main.zig'' ''/p'')) =
     [''a.zig'', ''link.zig'', ''src/util.zig''] \<and>
   (\<exists>cs. subseq cs (walked_files project_fs ''/p'') \<and>
         list_all2
           (\<lambda>e c. read_from Rel_below project_fs ''/p'' e c \<and> wname c \<noteq> ''build.zig'')
           (fst (collectProjectFiles Rel_below project_fs ''/p'' ''/p/main.zig'' ''/p'')) cs)"
  using collect_never_build_zig[of project_fs "''/p''" Rel_below "''/p''" "''/p/main.zig''"]
  by (simp add: project_collect project_walked Ext_def)

section \<open>Properties of compile\<close>

subsection \<open>The effects of compile\<close>

lemma posted_append: "posted (xs @ ys) = posted xs @ posted ys"
  by (induction xs rule: posted.induct) simp_all

lemma posted_print: "list_all is_print es \<Longrightarrow> posted es = []"
  by (induction es rule: posted.induct) simp_all

lemma is_print_io: "list_all is_print es \<Longrightarrow> list_all is_io es"
proof (induction es)
  case Nil
  show ?case by simp
next
  case (Cons e es)
  then show ?case by (cases e) simp_all
qed

lemma compiles_io: "list_all is_io es \<Longrightarrow> compiles es = 0"
  by (induction es) (auto simp: compiles_def)

lemma extends_refl: "extends w w []"
  by (simp add: extends_def)

lemma extends_emit: "extends w (emit e w) [e]"
  by (simp add: extends_def emit_def)

lemma extends_trans: "extends w w1 xs \<Longrightarrow> extends w1 w2 ys \<Longrightarrow> extends w w2 (xs @ ys)"
  by (simp add: extends_def)

lemma extends_fields:
  assumes "extends w w' es"
  shows "fsys w' = fsys w" "getwd w' = getwd w" "http_do w' = http_do w"
    "new_watcher w' = new_watcher w" "watcher_add w' = watcher_add w"
    "now w' = now w" "timers w' = timers w" "trace w' = trace w @ es"
    "new_effects w w' = es"
  using assms by (simp_all add: extends_def new_effects_def)

lemma foldl_emit:
  "extends w (foldl (\<lambda>w x. emit (g x) w) w xs) (map g xs)"
proof (induction xs arbitrary: w)
  case Nil
  show ?case by (simp add: extends_refl)
next
  case (Cons x xs)
  from extends_trans[OF extends_emit Cons[of "emit (g x) w"]]
  show ?case by simp
qed

lemma printResponse_extends:
  "\<exists>es. extends w (printResponse pk result w) es \<and> list_all is_print es"
proof -
  let ?P = "is_print"
  let ?g1 = "\<lambda>line. Print (esc @ ''[31m'' @ Text line @ esc @ ''[0m'' @ nl)"
  let ?g2 = "\<lambda>line. Print (Text line @ nl)"
  let ?w1 = "foldl (\<lambda>w line. emit (?g1 line) w) w (Stderr result)"
  let ?w2 = "foldl (\<lambda>w line. emit (?g2 line) w) ?w1 (Stdout result)"
  have e2: "extends w ?w2 (map ?g1 (Stderr result) @ map ?g2 (Stdout result))"
    by (rule extends_trans[OF foldl_emit foldl_emit])
  have p2: "list_all ?P (map ?g1 (Stderr result) @ map ?g2 (Stdout result))"
    by (auto simp: list_all_iff)
  show ?thesis
  proof (cases "length (Asm result) > 0")
    case False
    then have "printResponse pk result w = ?w2"
      by (simp add: printResponse_def Println_def)
    with e2 p2 show ?thesis by auto
  next
    case True
    let ?a = "Print ((nl @ esc @ ''[36m'' @ hbar @ hbar @ hbar @ '' Assembly '' @ hbar @ hbar @ hbar
                        @ esc @ ''[0m'') @ nl)"
    let ?b = "Print (highlight pk (concat (map (\<lambda>line. AsmText line @ nl) (Asm result))) ''gas'')"
    from True have "printResponse pk result w = emit ?b (emit ?a ?w2)"
      by (simp add: printResponse_def Println_def)
    moreover have "extends w (emit ?b (emit ?a ?w2))
       ((map ?g1 (Stderr result) @ map ?g2 (Stdout result)) @ [?a] @ [?b])"
      by (rule extends_trans[OF e2 extends_trans[OF extends_emit extends_emit]])
    moreover have "list_all ?P ((map ?g1 (Stderr result) @ map ?g2 (Stdout result)) @ [?a] @ [?b])"
      using p2 by simp
    ultimately show ?thesis by metis
  qed
qed

lemma postRequest_extends:
  "\<exists>es. extends w (snd (postRequest pk baseURL compiler args source files w)) es \<and>
        list_all is_io es \<and> posted es = posts_of pk baseURL compiler args source files"
proof (cases "json_Marshal pk (compileRequest source files args)")
  case (Inl e)
  then have "extends w (snd (postRequest pk baseURL compiler args source files w)) [] \<and>
        list_all is_io [] \<and> posted [] = posts_of pk baseURL compiler args source files"
    by (simp add: postRequest_def posts_of_def extends_refl)
  then show ?thesis by blast
next
  case (Inr jsonData)
  note m = this
  let ?url = "baseURL @ ''/api/compiler/'' @ compiler @ ''/compile''"
  show ?thesis
  proof (cases "url_Parse pk ?url")
    case (Some e)
    with m have "extends w (snd (postRequest pk baseURL compiler args source files w)) [] \<and>
        list_all is_io [] \<and> posted [] = posts_of pk baseURL compiler args source files"
      by (simp add: postRequest_def posts_of_def NewRequest_def extends_refl)
    then show ?thesis by blast
  next
    case None
    let ?q = "\<lparr>Method = ''POST'', URL = ?url,
                 Header = [(''Content-Type'', ''application/json''), (''Accept'', ''application/json'')],
                 Body = jsonData\<rparr>"
    let ?w1 = "emit (HttpDo ?q) w"
    have p: "posts_of pk baseURL compiler args source files = [?q]"
      using m None by (simp add: posts_of_def)
    have "\<exists>es'. extends ?w1 (snd (postRequest pk baseURL compiler args source files w)) es' \<and>
            list_all is_print es'"
    proof (cases "\<exists>body result. http_do w ?q = Inr (Inr body) \<and> json_Unmarshal pk body = Inr result")
      case True
      then obtain body result where "http_do w ?q = Inr (Inr body)" "json_Unmarshal pk body = Inr result"
        by blast
      with m None have "snd (postRequest pk baseURL compiler args source files w) = printResponse pk result ?w1"
        by (simp add: postRequest_def NewRequest_def Header_Set_def Let_def)
      with printResponse_extends[of ?w1 pk result] show ?thesis by simp
    next
      case False
      with m None have "snd (postRequest pk baseURL compiler args source files w) = ?w1"
        by (auto simp add: postRequest_def NewRequest_def Header_Set_def Let_def split: sum.splits)
      then have "extends ?w1 (snd (postRequest pk baseURL compiler args source files w)) [] \<and>
            list_all is_print []" by (simp add: extends_refl)
      then show ?thesis by blast
    qed
    then obtain es' where es': "extends ?w1 (snd (postRequest pk baseURL compiler args source files w)) es'"
      "list_all is_print es'" by blast
    from extends_trans[OF extends_emit es'(1)]
    have "extends w (snd (postRequest pk baseURL compiler args source files w)) (HttpDo ?q # es')" by simp
    moreover have "list_all is_io (HttpDo ?q # es')" using is_print_io[OF es'(2)] by simp
    moreover have "posted (HttpDo ?q # es') = posts_of pk baseURL compiler args source files"
      using p posted_print[OF es'(2)] by simp
    ultimately show ?thesis by blast
  qed
qed

lemma postRequest_success:
  "fst (postRequest pk baseURL compiler args source files w) = None \<longleftrightarrow>
     (\<exists>q body result. posts_of pk baseURL compiler args source files = [q] \<and>
        json_Marshal pk (compileRequest source files args) = Inr (Body q) \<and>
        http_do w q = Inr (Inr body) \<and> json_Unmarshal pk body = Inr result)"
  by (auto simp add: postRequest_def posts_of_def NewRequest_def Header_Set_def Let_def
        split: sum.splits option.splits)

lemma postRequest_error:
  "fst (postRequest pk baseURL compiler args source files w) = Some err \<Longrightarrow>
     \<exists>pre e post. err = Errorf pre (LibError e) post"
  by (auto simp add: postRequest_def NewRequest_def Let_def split: sum.splits option.splits)

lemma emit_fields [simp]:
  "fsys (emit e w) = fsys w" "getwd (emit e w) = getwd w" "http_do (emit e w) = http_do w"
  "new_watcher (emit e w) = new_watcher w" "watcher_add (emit e w) = watcher_add w"
  "now (emit e w) = now w" "timers (emit e w) = timers w" "trace (emit e w) = trace w @ [e]"
  by (simp_all add: emit_def)

lemma Abs_emit [simp]: "Abs (emit e w) p = Abs w p"
  by (simp add: Abs_def)

lemma Println_fields [simp]:
  "fsys (Println s w) = fsys w" "getwd (Println s w) = getwd w" "http_do (Println s w) = http_do w"
  "Abs (Println s w) p = Abs w p"
  by (simp_all add: Println_def)

text \<open>
  Up to the request, \<open>compile\<close> marks its invocation and prints: the source when
  asked to, and the warning when collecting the project files failed.
\<close>

lemma compile_shows_source:
  "\<exists>es. extends w
          (if showSource then
             Println (highlight pk source (getLangFromFile pk filePath))
               (Println (esc @ ''[36m'' @ hbar @ hbar @ hbar @ '' Source '' @ hbar @ hbar @ hbar
                          @ esc @ ''[0m'') (emit CompileCalled w))
           else emit CompileCalled w) (CompileCalled # es) \<and> list_all is_print es"
proof (cases showSource)
  case False
  then show ?thesis using extends_emit[of w CompileCalled] by auto
next
  case True
  let ?h1 = "Print ((esc @ ''[36m'' @ hbar @ hbar @ hbar @ '' Source '' @ hbar @ hbar @ hbar
                                    @ esc @ ''[0m'') @ nl)"
  let ?h2 = "Print (highlight pk source (getLangFromFile pk filePath) @ nl)"
  let ?w = "emit CompileCalled w"
  from extends_trans[OF extends_emit[of w CompileCalled]
         extends_trans[OF extends_emit[of ?w ?h1] extends_emit[of "emit ?h1 ?w" ?h2]]]
  have "extends w (emit ?h2 (emit ?h1 ?w)) (CompileCalled # [?h1, ?h2])" by simp
  moreover have "list_all is_print [?h1, ?h2]" by simp
  ultimately show ?thesis using True unfolding Println_def by auto
qed

lemma compile_early:
  assumes "compile_inputs pk filePath projectRoot w = None"
  shows "\<exists>pre e w1 es. compile pk baseURL compiler filePath args showSource projectRoot w =
            (Some (Errorf pre (LibError e) ''''), w1) \<and>
          extends w w1 (CompileCalled # es) \<and> list_all is_print es"
proof (cases "ReadFile (fsys w) filePath")
  case (Inl e)
  then have "compile pk baseURL compiler filePath args showSource projectRoot w =
            (Some (Errorf ''failed to read file: '' (LibError e) ''''), emit CompileCalled w)"
    by (simp add: compile_def)
  moreover have "extends w (emit CompileCalled w) (CompileCalled # [])" by (rule extends_emit)
  moreover have "list_all is_print []" by simp
  ultimately show ?thesis by blast
next
  case (Inr source)
  let ?w1 = "if showSource then
             Println (highlight pk source (getLangFromFile pk filePath))
               (Println (esc @ ''[36m'' @ hbar @ hbar @ hbar @ '' Source '' @ hbar @ hbar @ hbar
                          @ esc @ ''[0m'') (emit CompileCalled w))
           else emit CompileCalled w"
  from compile_shows_source[of w showSource pk source filePath]
  obtain es where es: "extends w ?w1 (CompileCalled # es)" "list_all is_print es" by blast
  from assms Inr have "\<exists>pre e. compile pk baseURL compiler filePath args showSource projectRoot w =
            (Some (Errorf pre (LibError e) ''''), ?w1)"
    by (cases showSource; cases "projectRoot = ''''")
       (simp_all add: compile_def compile_inputs_def Let_def split: sum.splits prod.splits option.splits)
  with es show ?thesis by blast
qed

lemma compile_post:
  assumes "compile_inputs pk filePath projectRoot w = Some (source, files)"
  shows "\<exists>w2 es. compile pk baseURL compiler filePath args showSource projectRoot w =
            postRequest pk baseURL compiler args source files w2 \<and>
          extends w w2 (CompileCalled # es) \<and> list_all is_print es"
proof -
  from assms have src: "ReadFile (fsys w) filePath = Inr source"
    by (simp add: compile_inputs_def split: sum.splits prod.splits option.splits)
  let ?w1 = "if showSource then
             Println (highlight pk source (getLangFromFile pk filePath))
               (Println (esc @ ''[36m'' @ hbar @ hbar @ hbar @ '' Source '' @ hbar @ hbar @ hbar
                          @ esc @ ''[0m'') (emit CompileCalled w))
           else emit CompileCalled w"
  from compile_shows_source[of w showSource pk source filePath]
  obtain es where es: "extends w ?w1 (CompileCalled # es)" "list_all is_print es" by blast
  from assms src have
    "compile pk baseURL compiler filePath args showSource projectRoot w =
            postRequest pk baseURL compiler args source files ?w1 \<or>
     (\<exists>err. compile pk baseURL compiler filePath args showSource projectRoot w =
            postRequest pk baseURL compiler args source files
              (emit (Print (esc @ ''[33mWarning: could not collect project files: ''
                                            @ Error err @ esc @ ''[0m'' @ nl)) ?w1))"
    by (cases showSource; cases "projectRoot = ''''")
       (auto simp add: compile_def compile_inputs_def Let_def split: sum.splits prod.splits option.splits)
  then show ?thesis
  proof
    assume "compile pk baseURL compiler filePath args showSource projectRoot w =
            postRequest pk baseURL compiler args source files ?w1"
    with es show ?thesis by blast
  next
    assume "\<exists>err. compile pk baseURL compiler filePath args showSource projectRoot w =
            postRequest pk baseURL compiler args source files
              (emit (Print (esc @ ''[33mWarning: could not collect project files: ''
                                            @ Error err @ esc @ ''[0m'' @ nl)) ?w1)"
    then obtain err where c: "compile pk baseURL compiler filePath args showSource projectRoot w =
            postRequest pk baseURL compiler args source files
              (emit (Print (esc @ ''[33mWarning: could not collect project files: ''
                                            @ Error err @ esc @ ''[0m'' @ nl)) ?w1)" by blast
    let ?p = "Print (esc @ ''[33mWarning: could not collect project files: ''
                                            @ Error err @ esc @ ''[0m'' @ nl)"
    from extends_trans[OF es(1) extends_emit[of ?w1 ?p]]
    have "extends w (emit ?p ?w1) (CompileCalled # (es @ [?p]))" by simp
    moreover have "list_all is_print (es @ [?p])" using es(2) by simp
    ultimately show ?thesis using c by blast
  qed
qed

lemma posts_of_shape:
  "length (posts_of pk baseURL compiler args source files) \<le> 1 \<and>
   list_all (\<lambda>q. Method q = ''POST'' \<and> URL q = baseURL @ ''/api/compiler/'' @ compiler @ ''/compile'' \<and>
                 json_Marshal pk (compileRequest source files args) = Inr (Body q))
     (posts_of pk baseURL compiler args source files)"
  by (simp add: posts_of_def split: sum.splits option.splits)

lemma compile_inputs_source:
  "compile_inputs pk filePath projectRoot w = Some (source, files) \<Longrightarrow>
     ReadFile (fsys w) filePath = Inr source"
  by (simp add: compile_inputs_def split: sum.splits prod.splits option.splits)

text \<open>The run of \<open>compile\<close>, by what it read.\<close>

lemma compile_run:
  "\<exists>es. extends w (snd (compile pk baseURL compiler filePath args showSource projectRoot w))
             (CompileCalled # es) \<and>
        list_all is_io es \<and>
        (case compile_inputs pk filePath projectRoot w of
           None \<Rightarrow>
             posted es = [] \<and>
             (\<exists>pre e. fst (compile pk baseURL compiler filePath args showSource projectRoot w) =
                        Some (Errorf pre (LibError e) ''''))
         | Some (source, files) \<Rightarrow>
             posted es = posts_of pk baseURL compiler args source files \<and>
             (case fst (compile pk baseURL compiler filePath args showSource projectRoot w) of
                None \<Rightarrow>
                  (\<exists>q body result. posted es = [q] \<and> http_do w q = Inr (Inr body) \<and>
                     json_Unmarshal pk body = Inr result)
              | Some err \<Rightarrow> (\<exists>pre e post. err = Errorf pre (LibError e) post)))"
proof (cases "compile_inputs pk filePath projectRoot w")
  case None
  from compile_early[OF None, of baseURL compiler args showSource]
  obtain pre e w1 es where c: "compile pk baseURL compiler filePath args showSource projectRoot w =
            (Some (Errorf pre (LibError e) ''''), w1)"
    "extends w w1 (CompileCalled # es)" "list_all is_print es" by blast
  have "extends w (snd (compile pk baseURL compiler filePath args showSource projectRoot w))
             (CompileCalled # es)" using c by simp
  moreover have "list_all is_io es" by (rule is_print_io[OF c(3)])
  moreover have "posted es = []" by (rule posted_print[OF c(3)])
  moreover have "\<exists>pre e. fst (compile pk baseURL compiler filePath args showSource projectRoot w) =
                        Some (Errorf pre (LibError e) '''')" using c(1) by simp
  ultimately show ?thesis using None by auto
next
  case (Some sf)
  obtain source files where sf: "sf = (source, files)" by (cases sf)
  from compile_post[OF Some[unfolded sf], of baseURL compiler args showSource]
  obtain w2 es where c: "compile pk baseURL compiler filePath args showSource projectRoot w =
            postRequest pk baseURL compiler args source files w2"
    "extends w w2 (CompileCalled # es)" "list_all is_print es" by blast
  from postRequest_extends[of w2 pk baseURL compiler args source files]
  obtain es3 where es3: "extends w2 (snd (postRequest pk baseURL compiler args source files w2)) es3"
    "list_all is_io es3" "posted es3 = posts_of pk baseURL compiler args source files" by blast
  from extends_trans[OF c(2) es3(1)]
  have e: "extends w (snd (compile pk baseURL compiler filePath args showSource projectRoot w))
             (CompileCalled # (es @ es3))" using c(1) by simp
  have io: "list_all is_io (es @ es3)" using is_print_io[OF c(3)] es3(2) by simp
  have p: "posted (es @ es3) = posts_of pk baseURL compiler args source files"
    using posted_print[OF c(3)] es3(3) by (simp add: posted_append)
  have r: "case fst (compile pk baseURL compiler filePath args showSource projectRoot w) of
                None \<Rightarrow>
                  (\<exists>q body result. posted (es @ es3) = [q] \<and> http_do w q = Inr (Inr body) \<and>
                     json_Unmarshal pk body = Inr result)
              | Some err \<Rightarrow> (\<exists>pre e post. err = Errorf pre (LibError e) post)"
  proof (cases "fst (postRequest pk baseURL compiler args source files w2)")
    case None
    from None[unfolded postRequest_success]
    obtain q body result where "posts_of pk baseURL compiler args source files = [q]"
      "http_do w2 q = Inr (Inr body)" "json_Unmarshal pk body = Inr result" by blast
    then have "\<exists>q body result. posted (es @ es3) = [q] \<and> http_do w q = Inr (Inr body) \<and>
                     json_Unmarshal pk body = Inr result"
      using p extends_fields(3)[OF c(2)] by auto
    with None c(1) show ?thesis by simp
  next
    case (Some err)
    from postRequest_error[OF Some] Some c(1) show ?thesis by simp
  qed
  from e io p r show ?thesis unfolding Some sf by auto
qed

lemma compile_new_effects:
  "\<exists>es. new_effects w (snd (compile pk baseURL compiler filePath args showSource projectRoot w)) =
          CompileCalled # es \<and> list_all is_io es \<and>
        posted es = (case compile_inputs pk filePath projectRoot w of
                       None \<Rightarrow> []
                     | Some (source, files) \<Rightarrow> posts_of pk baseURL compiler args source files)"
proof -
  from compile_run[of w pk baseURL compiler filePath args showSource projectRoot]
  obtain es where es: "extends w (snd (compile pk baseURL compiler filePath args showSource projectRoot w))
             (CompileCalled # es)" "list_all is_io es"
    "posted es = (case compile_inputs pk filePath projectRoot w of
                       None \<Rightarrow> []
                     | Some (source, files) \<Rightarrow> posts_of pk baseURL compiler args source files)"
    by (cases "compile_inputs pk filePath projectRoot w") auto
  from extends_fields(9)[OF es(1)] es(2,3) show ?thesis by blast
qed

lemma compile_frame:
  "fsys (snd (compile pk baseURL compiler filePath args showSource projectRoot w)) = fsys w"
  "getwd (snd (compile pk baseURL compiler filePath args showSource projectRoot w)) = getwd w"
  "http_do (snd (compile pk baseURL compiler filePath args showSource projectRoot w)) = http_do w"
  "new_watcher (snd (compile pk baseURL compiler filePath args showSource projectRoot w)) = new_watcher w"
  "watcher_add (snd (compile pk baseURL compiler filePath args showSource projectRoot w)) = watcher_add w"
  "now (snd (compile pk baseURL compiler filePath args showSource projectRoot w)) = now w"
  "timers (snd (compile pk baseURL compiler filePath args showSource projectRoot w)) = timers w"
proof -
  from compile_run[of w pk baseURL compiler filePath args showSource projectRoot]
  obtain es where es: "extends w (snd (compile pk baseURL compiler filePath args showSource projectRoot w))
             (CompileCalled # es)" by blast
  note f = extends_fields[OF es]
  show "fsys (snd (compile pk baseURL compiler filePath args showSource projectRoot w)) = fsys w"
    by (rule f(1))
  show "getwd (snd (compile pk baseURL compiler filePath args showSource projectRoot w)) = getwd w"
    by (rule f(2))
  show "http_do (snd (compile pk baseURL compiler filePath args showSource projectRoot w)) = http_do w"
    by (rule f(3))
  show "new_watcher (snd (compile pk baseURL compiler filePath args showSource projectRoot w)) = new_watcher w"
    by (rule f(4))
  show "watcher_add (snd (compile pk baseURL compiler filePath args showSource projectRoot w)) = watcher_add w"
    by (rule f(5))
  show "now (snd (compile pk baseURL compiler filePath args showSource projectRoot w)) = now w"
    by (rule f(6))
  show "timers (snd (compile pk baseURL compiler filePath args showSource projectRoot w)) = timers w"
    by (rule f(7))
qed

lemma example_compile:
  "fst (compile example_packages ''https://godbolt.org'' ''ztrunk'' ''main.zig'' ''-O3'' False ''''
          example_world) = None"
  "posted (new_effects example_world
      (snd (compile example_packages ''https://godbolt.org'' ''ztrunk'' ''main.zig'' ''-O3'' False ''''
              example_world))) =
     [\<lparr>Method = ''POST'', URL = ''https://godbolt.org/api/compiler/ztrunk/compile'',
       Header = [(''Content-Type'', ''application/json''), (''Accept'', ''application/json'')],
       Body = ''// main.zig|-O3|a.zig;link.zig;src/util.zig;''\<rparr>]"
  by code_simp+


lemma compile_warns:
  assumes "ReadFile (fsys w) filePath = Inr source"
    and "Abs w filePath = Inr absPath"
    and "(if projectRoot \<noteq> '''' then Abs w projectRoot else Inr (Dir absPath)) = Inr searchDir"
    and "collectProjectFiles (filepath_Rel pk) (fsys w) searchDir absPath (Dir absPath) = (files, Some err)"
  shows "\<exists>w2 es. compile pk baseURL compiler filePath args showSource projectRoot w =
            postRequest pk baseURL compiler args source [] w2 \<and>
          extends w w2 (CompileCalled # es) \<and> list_all is_print es \<and>
          Print (esc @ ''[33mWarning: could not collect project files: '' @ Error err @ esc @ ''[0m'' @ nl)
            \<in> set es"
proof -
  let ?w1 = "if showSource then
             Println (highlight pk source (getLangFromFile pk filePath))
               (Println (esc @ ''[36m'' @ hbar @ hbar @ hbar @ '' Source '' @ hbar @ hbar @ hbar
                          @ esc @ ''[0m'') (emit CompileCalled w))
           else emit CompileCalled w"
  let ?p = "Print (esc @ ''[33mWarning: could not collect project files: ''
                                            @ Error err @ esc @ ''[0m'' @ nl)"
  from compile_shows_source[of w showSource pk source filePath]
  obtain es where es: "extends w ?w1 (CompileCalled # es)" "list_all is_print es" by blast
  from assms have c: "compile pk baseURL compiler filePath args showSource projectRoot w =
            postRequest pk baseURL compiler args source [] (emit ?p ?w1)"
    by (cases showSource; cases "projectRoot = ''''") (simp_all add: compile_def Let_def)
  from extends_trans[OF es(1) extends_emit[of ?w1 ?p]]
  have "extends w (emit ?p ?w1) (CompileCalled # (es @ [?p]))" by simp
  moreover have "list_all is_print (es @ [?p])" using es(2) by simp
  moreover have "?p \<in> set (es @ [?p])" by simp
  ultimately show ?thesis using c by blast
qed

lemma unreadable_compile:
  "ReadFile (fsys unreadable_world) ''main.zig'' = Inr ''// main.zig''"
  "Abs unreadable_world ''main.zig'' = Inr ''/p/main.zig''"
  "(if '''' \<noteq> '''' then Abs unreadable_world '''' else Inr (Dir ''/p/main.zig'')) = Inr ''/p''"
  "collectProjectFiles (filepath_Rel example_packages) (fsys unreadable_world)
     ''/p'' ''/p/main.zig'' (Dir ''/p/main.zig'') =
     ([], Some (LibError (ExtError False ''open /p/a.zig: permission denied'')))"
  "fst (compile example_packages ''https://godbolt.org'' ''ztrunk'' ''main.zig'' ''-O3'' False ''''
          unreadable_world) = None"
  "posted (new_effects unreadable_world
      (snd (compile example_packages ''https://godbolt.org'' ''ztrunk'' ''main.zig'' ''-O3'' False ''''
              unreadable_world))) =
     [\<lparr>Method = ''POST'', URL = ''https://godbolt.org/api/compiler/ztrunk/compile'',
       Header = [(''Content-Type'', ''application/json''), (''Accept'', ''application/json'')],
       Body = ''// main.zig|-O3|''\<rparr>]"
  by code_simp+

lemma compile_inputs_cong:
  assumes "ReadFile (fsys w1) filePath = ReadFile (fsys w2) filePath"
    and "getwd w1 = getwd w2"
    and "\<And>searchDir mainFile relativeToDir.
           collectProjectFiles (filepath_Rel pk) (fsys w1) searchDir mainFile relativeToDir =
           collectProjectFiles (filepath_Rel pk) (fsys w2) searchDir mainFile relativeToDir"
  shows "compile_inputs pk filePath projectRoot w1 = compile_inputs pk filePath projectRoot w2"
proof -
  have a: "Abs w1 = Abs w2" using assms(2) by (simp add: Abs_def fun_eq_iff)
  show ?thesis unfolding compile_inputs_def assms(1) assms(3) a by (rule refl)
qed

subsection \<open>The HTTP client\<close>

text \<open>
  One call of \<open>client.Do\<close> sends the request it is given first, and between one and
  ten requests in all; exactly one when sending fails or the first response is no
  redirect.
\<close>

lemma client_do_sent:
  "prefix (reqs @ [req]) (fst (client_do net reqs req))"
proof (induction net reqs req rule: client_do.induct)
  case (1 net reqs req)
  show ?case
  proof (cases "net reqs req")
    case (Inl e)
    then show ?thesis by (subst client_do.simps) simp
  next
    case (Inr resp)
    obtain m s where rb: "redirectBehavior (SentMethod req) resp = (m, s)" by (cases "redirectBehavior (SentMethod req) resp")
    show ?thesis
    proof (cases "s \<and> (\<exists>u. Location resp = Some (Inr u)) \<and> defaultCheckRedirect (reqs @ [req]) = None")
      case True
      then obtain u where u: "Location resp = Some (Inr u)" by blast
      from True have s: s and d: "defaultCheckRedirect (reqs @ [req]) = None" by simp_all
      from s have nn: "\<not> \<not> s" by simp
      from "1.IH"[OF Inr rb[symmetric] nn u refl d]
      have "prefix ((reqs @ [req]) @ [\<lparr>SentMethod = m, SentURL = u\<rparr>])
              (fst (client_do net (reqs @ [req]) \<lparr>SentMethod = m, SentURL = u\<rparr>))" by simp
      then have "prefix (reqs @ [req]) (fst (client_do net (reqs @ [req]) \<lparr>SentMethod = m, SentURL = u\<rparr>))"
        using append_prefixD by blast
      then show ?thesis using Inr rb u s d by (subst client_do.simps) simp
    next
      case False
      then show ?thesis using Inr rb
        by (subst client_do.simps) (auto split: option.splits sum.splits)
    qed
  qed
qed

lemma client_do_bound:
  "length reqs < 10 \<Longrightarrow> length (fst (client_do net reqs req)) \<le> 10"
proof (induction net reqs req rule: client_do.induct)
  case (1 net reqs req)
  show ?case
  proof (cases "net reqs req")
    case (Inl e)
    then show ?thesis using "1.prems" by (subst client_do.simps) simp
  next
    case (Inr resp)
    obtain m s where rb: "redirectBehavior (SentMethod req) resp = (m, s)" by (cases "redirectBehavior (SentMethod req) resp")
    show ?thesis
    proof (cases "s \<and> (\<exists>u. Location resp = Some (Inr u)) \<and> defaultCheckRedirect (reqs @ [req]) = None")
      case True
      then obtain u where u: "Location resp = Some (Inr u)" by blast
      from True have s: s and d: "defaultCheckRedirect (reqs @ [req]) = None" by simp_all
      from d have "length (reqs @ [req]) < 10" by (simp add: defaultCheckRedirect_def split: if_splits)
      from s have nn: "\<not> \<not> s" by simp
      from "1.IH"[OF Inr rb[symmetric] nn u refl d \<open>length (reqs @ [req]) < 10\<close>]
      have "length (fst (client_do net (reqs @ [req]) \<lparr>SentMethod = m, SentURL = u\<rparr>)) \<le> 10" by simp
      then show ?thesis using Inr rb u s d by (subst client_do.simps) simp
    next
      case False
      then show ?thesis using Inr rb "1.prems"
        by (subst client_do.simps) (auto split: option.splits sum.splits)
    qed
  qed
qed

lemma round_trips_bounds:
  "1 \<le> length (round_trips net q) \<and> length (round_trips net q) \<le> 10 \<and>
   hd (round_trips net q) = \<lparr>SentMethod = Method q, SentURL = URL q\<rparr>"
proof -
  let ?r = "\<lparr>SentMethod = Method q, SentURL = URL q\<rparr>"
  from client_do_sent[of "[]" ?r net] obtain zs where "round_trips net q = ?r # zs"
    unfolding round_trips_def by (auto simp: prefix_def)
  moreover from client_do_bound[of "[]" net ?r] have "length (round_trips net q) \<le> 10"
    unfolding round_trips_def by simp
  ultimately show ?thesis by simp
qed

lemma round_trips_no_redirect:
  assumes "net [] \<lparr>SentMethod = Method q, SentURL = URL q\<rparr> = Inr resp"
    and "StatusCode resp \<notin> {301, 302, 303, 307, 308}"
  shows "round_trips net q = [\<lparr>SentMethod = Method q, SentURL = URL q\<rparr>]"
    and "Client_Do net q = Inr (ResponseBody resp)"
  using assms unfolding round_trips_def Client_Do_def
  by (subst client_do.simps; simp add: redirectBehavior_def)+

lemma round_trips_error:
  assumes "net [] \<lparr>SentMethod = Method q, SentURL = URL q\<rparr> = Inl e"
  shows "round_trips net q = [\<lparr>SentMethod = Method q, SentURL = URL q\<rparr>]"
    and "Client_Do net q = Inl e"
  using assms unfolding round_trips_def Client_Do_def
  by (subst client_do.simps; simp)+

lemma Client_Do_cases:
  "round_trips redirect_net \<lparr>Method = ''POST'', URL = ''u'', Header = [], Body = ''b''\<rparr> =
     [\<lparr>SentMethod = ''POST'', SentURL = ''u''\<rparr>, \<lparr>SentMethod = ''POST'', SentURL = ''u''\<rparr>]"
  "Client_Do redirect_net \<lparr>Method = ''POST'', URL = ''u'', Header = [], Body = ''b''\<rparr> = Inr (Inr ''ret'')"
  "round_trips moved_net \<lparr>Method = ''POST'', URL = ''http://godbolt.org/api'', Header = [], Body = ''b''\<rparr> =
     [\<lparr>SentMethod = ''POST'', SentURL = ''http://godbolt.org/api''\<rparr>,
      \<lparr>SentMethod = ''GET'', SentURL = ''https://godbolt.org/api''\<rparr>]"
  "Client_Do moved_net \<lparr>Method = ''POST'', URL = ''http://godbolt.org/api'', Header = [], Body = ''b''\<rparr> =
     Inr (Inr ''Method Not Allowed'')"
  "round_trips loop_net \<lparr>Method = ''POST'', URL = ''u'', Header = [], Body = ''b''\<rparr> =
     replicate 10 \<lparr>SentMethod = ''POST'', SentURL = ''u''\<rparr>"
  "Client_Do loop_net \<lparr>Method = ''POST'', URL = ''u'', Header = [], Body = ''b''\<rparr> =
     Inl (ExtError False ''stopped after 10 redirects'')"
  by code_simp+

subsection \<open>Claims about compile\<close>




text \<open>
  Claim C10: when \<open>collectProjectFiles\<close> returns an error, \<open>compile\<close> prints the
  warning and goes on with the main source only: what it hands to \<open>client.Do\<close> is
  the request built from the source and an empty list of files (\<open>posts_of\<close>: that
  request, once marshalled and made), and it returns no error exactly when that request
  was sent and its response read and parsed.
\<close>

theorem compile_survives_collect_error:
  assumes "ReadFile (fsys w) filePath = Inr source"
    and "Abs w filePath = Inr absPath"
    and "(if projectRoot \<noteq> '''' then Abs w projectRoot else Inr (Dir absPath)) = Inr searchDir"
    and "collectProjectFiles (filepath_Rel pk) (fsys w) searchDir absPath (Dir absPath) = (files, Some err)"
  shows "\<exists>es. extends w (snd (compile pk baseURL compiler filePath args showSource projectRoot w)) es \<and>
           Print (esc @ ''[33mWarning: could not collect project files: '' @ Error err @ esc @ ''[0m'' @ nl)
             \<in> set es \<and>
           posted es = posts_of pk baseURL compiler args source [] \<and>
           list_all (\<lambda>q. json_Marshal pk (compileRequest source [] args) = Inr (Body q)) (posted es) \<and>
           (fst (compile pk baseURL compiler filePath args showSource projectRoot w) = None) =
             (\<exists>q body result. posted es = [q] \<and> http_do w q = Inr (Inr body) \<and>
                json_Unmarshal pk body = Inr result)"
proof -
  let ?c = "compile pk baseURL compiler filePath args showSource projectRoot w"
  let ?p = "Print (esc @ ''[33mWarning: could not collect project files: ''
                                            @ Error err @ esc @ ''[0m'' @ nl)"
  from compile_warns[OF assms, of baseURL compiler args showSource]
  obtain w2 es where c: "?c = postRequest pk baseURL compiler args source [] w2"
    "extends w w2 (CompileCalled # es)" "list_all is_print es" "?p \<in> set es" by blast
  from postRequest_extends[of w2 pk baseURL compiler args source "[]"]
  obtain es3 where es3: "extends w2 (snd (postRequest pk baseURL compiler args source [] w2)) es3"
    "list_all is_io es3" "posted es3 = posts_of pk baseURL compiler args source []" by blast
  let ?es = "CompileCalled # (es @ es3)"
  from extends_trans[OF c(2) es3(1)] have e: "extends w (snd ?c) ?es" using c(1) by simp
  have w: "?p \<in> set ?es" using c(4) by simp
  have p: "posted ?es = posts_of pk baseURL compiler args source []"
    using posted_print[OF c(3)] es3(3) by (simp add: posted_append)
  note shape = posts_of_shape[of pk baseURL compiler args source "[]"]
  have m: "list_all (\<lambda>q. json_Marshal pk (compileRequest source [] args) = Inr (Body q)) (posted ?es)"
    using shape unfolding p by (simp add: list_all_iff)
  have r: "(fst ?c = None) =
             (\<exists>q body result. posted ?es = [q] \<and> http_do w q = Inr (Inr body) \<and>
                json_Unmarshal pk body = Inr result)"
    unfolding c(1) postRequest_success p extends_fields(3)[OF c(2)]
    using shape by auto
  show ?thesis by (rule exI[of _ ?es]) (intro conjI e w p m r)
qed

theorem compile_survives_collect_error_witness:
  "collectProjectFiles (filepath_Rel example_packages) (fsys unreadable_world)
     ''/p'' ''/p/main.zig'' (Dir ''/p/main.zig'') =
     ([], Some (LibError (ExtError False ''open /p/a.zig: permission denied''))) \<and>
   fst (compile example_packages ''https://godbolt.org'' ''ztrunk'' ''main.zig'' ''-O3'' False ''''
          unreadable_world) = None \<and>
   posted (new_effects unreadable_world
      (snd (compile example_packages ''https://godbolt.org'' ''ztrunk'' ''main.zig'' ''-O3'' False ''''
              unreadable_world))) =
     [\<lparr>Method = ''POST'', URL = ''https://godbolt.org/api/compiler/ztrunk/compile'',
       Header = [(''Content-Type'', ''application/json''), (''Accept'', ''application/json'')],
       Body = ''// main.zig|-O3|''\<rparr>] \<and>
   (\<exists>es. extends unreadable_world
           (snd (compile example_packages ''https://godbolt.org'' ''ztrunk'' ''main.zig'' ''-O3'' False ''''
                   unreadable_world)) es \<and>
         Print (esc @ ''[33mWarning: could not collect project files: ''
                @ ''open /p/a.zig: permission denied'' @ esc @ ''[0m'' @ nl) \<in> set es \<and>
         list_all (\<lambda>q. json_Marshal example_packages (compileRequest ''// main.zig'' [] ''-O3'')
                        = Inr (Body q)) (posted es))"
proof -
  from compile_survives_collect_error[OF unreadable_compile(1-4),
         of "''https://godbolt.org''" "''ztrunk''" "''-O3''" False]
  have "\<exists>es. extends unreadable_world
           (snd (compile example_packages ''https://godbolt.org'' ''ztrunk'' ''main.zig'' ''-O3'' False ''''
                   unreadable_world)) es \<and>
         Print (esc @ ''[33mWarning: could not collect project files: ''
                @ ''open /p/a.zig: permission denied'' @ esc @ ''[0m'' @ nl) \<in> set es \<and>
         list_all (\<lambda>q. json_Marshal example_packages (compileRequest ''// main.zig'' [] ''-O3'')
                        = Inr (Body q)) (posted es)"
    by auto
  then show ?thesis using unreadable_compile(4-6) by simp
qed

text \<open>
  Claim C4: two runs of \<open>compile\<close> with the same arguments, in any two worlds (whatever
  happened before in either: effects, clock, timers, answers of the server) that give
  the same contents of the file, the same working directory and the same collected
  project files, build the same requests: there is one list of requests (empty when
  \<open>compile\<close> returns before, or when the request cannot be marshalled or made) whose
  encodings both runs hand to \<open>client.Do\<close>, each with the contents of the file as
  source, the given arguments and the fixed filter settings.
\<close>

theorem compile_stateless:
  assumes "ReadFile (fsys w1) filePath = ReadFile (fsys w2) filePath"
    and "getwd w1 = getwd w2"
    and "\<And>searchDir mainFile relativeToDir.
           collectProjectFiles (filepath_Rel pk) (fsys w1) searchDir mainFile relativeToDir =
           collectProjectFiles (filepath_Rel pk) (fsys w2) searchDir mainFile relativeToDir"
  shows "\<exists>reqs.
           list_all2 (\<lambda>q req. json_Marshal pk req = Inr (Body q))
             (posted (new_effects w1
                (snd (compile pk baseURL compiler filePath args showSource projectRoot w1)))) reqs \<and>
           list_all2 (\<lambda>q req. json_Marshal pk req = Inr (Body q))
             (posted (new_effects w2
                (snd (compile pk baseURL compiler filePath args showSource projectRoot w2)))) reqs \<and>
           list_all (\<lambda>req. ReadFile (fsys w1) filePath = Inr (Source req) \<and>
                           UserArguments (Options req) = args \<and>
                           Filters (Options req) =
                             \<lparr>Binary = False, CommentOnly = True, Demangle = True, Directives = True,
                              Intel = True, Labels = True, Trim = False\<rparr>) reqs \<and>
           posted (new_effects w1
                (snd (compile pk baseURL compiler filePath args showSource projectRoot w1))) =
           posted (new_effects w2
                (snd (compile pk baseURL compiler filePath args showSource projectRoot w2)))"
proof -
  let ?n1 = "new_effects w1 (snd (compile pk baseURL compiler filePath args showSource projectRoot w1))"
  let ?n2 = "new_effects w2 (snd (compile pk baseURL compiler filePath args showSource projectRoot w2))"
  let ?posts = "case compile_inputs pk filePath projectRoot w1 of
                       None \<Rightarrow> []
                     | Some (source, files) \<Rightarrow> posts_of pk baseURL compiler args source files"
  let ?ok = "\<lambda>req. ReadFile (fsys w1) filePath = Inr (Source req) \<and>
                           UserArguments (Options req) = args \<and>
                           Filters (Options req) =
                             \<lparr>Binary = False, CommentOnly = True, Demangle = True, Directives = True,
                              Intel = True, Labels = True, Trim = False\<rparr>"
  from compile_new_effects[of w1 pk baseURL compiler filePath args showSource projectRoot]
  have p1: "posted ?n1 = ?posts" by auto
  from compile_new_effects[of w2 pk baseURL compiler filePath args showSource projectRoot]
  have p2: "posted ?n2 = ?posts"
    unfolding compile_inputs_cong[OF assms, of projectRoot] by auto
  have "\<exists>reqs. list_all2 (\<lambda>q req. json_Marshal pk req = Inr (Body q)) ?posts reqs \<and> list_all ?ok reqs"
  proof (cases "compile_inputs pk filePath projectRoot w1")
    case None
    then have "list_all2 (\<lambda>q req. json_Marshal pk req = Inr (Body q)) ?posts [] \<and> list_all ?ok []"
      by simp
    then show ?thesis by blast
  next
    case (Some sf)
    obtain source files where sf: "sf = (source, files)" by (cases sf)
    let ?reqs = "map (\<lambda>q. compileRequest source files args) (posts_of pk baseURL compiler args source files)"
    have src: "ReadFile (fsys w1) filePath = Inr source"
      using compile_inputs_source Some sf by blast
    have "list_all2 (\<lambda>q req. json_Marshal pk req = Inr (Body q))
            (posts_of pk baseURL compiler args source files) ?reqs"
      using posts_of_shape[of pk baseURL compiler args source files]
      by (simp add: list_all2_map2 list_all2_same list_all_iff)
    moreover have "list_all ?ok ?reqs"
      using src by (simp add: list_all_iff compileRequest_def)
    ultimately show ?thesis using Some sf by auto
  qed
  then show ?thesis unfolding p1 p2 by auto
qed

theorem compile_stateless_witness:
  "length (trace after_compile) = 6 \<and>
   posted (new_effects example_world
      (snd (compile example_packages ''https://godbolt.org'' ''ztrunk'' ''main.zig'' ''-O3'' False ''''
              example_world))) =
     [\<lparr>Method = ''POST'', URL = ''https://godbolt.org/api/compiler/ztrunk/compile'',
       Header = [(''Content-Type'', ''application/json''), (''Accept'', ''application/json'')],
       Body = ''// main.zig|-O3|a.zig;link.zig;src/util.zig;''\<rparr>] \<and>
   posted (new_effects after_compile
      (snd (compile example_packages ''https://godbolt.org'' ''ztrunk'' ''main.zig'' ''-O3'' False ''''
              after_compile))) =
     [\<lparr>Method = ''POST'', URL = ''https://godbolt.org/api/compiler/ztrunk/compile'',
       Header = [(''Content-Type'', ''application/json''), (''Accept'', ''application/json'')],
       Body = ''// main.zig|-O3|a.zig;link.zig;src/util.zig;''\<rparr>]"
proof -
  have f: "fsys after_compile = fsys example_world" "getwd after_compile = getwd example_world"
    by (simp_all add: after_compile_def compile_frame)
  have h1: "ReadFile (fsys example_world) ''main.zig'' = ReadFile (fsys after_compile) ''main.zig''"
    by (simp add: f)
  have h2: "getwd example_world = getwd after_compile" by (simp add: f)
  have h3: "collectProjectFiles (filepath_Rel example_packages) (fsys example_world) sd mf rd =
            collectProjectFiles (filepath_Rel example_packages) (fsys after_compile) sd mf rd"
    for sd mf rd by (simp add: f)
  have l: "length (trace after_compile) = 6" unfolding after_compile_def by code_simp
  from compile_stateless[OF h1 h2 h3, of "''https://godbolt.org''" "''ztrunk''" "''-O3''" False "''''"]
  have "posted (new_effects example_world
      (snd (compile example_packages ''https://godbolt.org'' ''ztrunk'' ''main.zig'' ''-O3'' False ''''
              example_world))) =
     posted (new_effects after_compile
      (snd (compile example_packages ''https://godbolt.org'' ''ztrunk'' ''main.zig'' ''-O3'' False ''''
              after_compile)))" by blast
  with example_compile(2) l show ?thesis by simp
qed

section \<open>Properties of the watch loop\<close>

lemma scheduled_append: "scheduled (xs @ ys) = scheduled xs @ scheduled ys"
  by (induction xs rule: scheduled.induct) simp_all

lemma scheduled_io: "list_all is_io es \<Longrightarrow> scheduled es = []"
  by (induction es rule: scheduled.induct) simp_all




lemma compiles_onceD:
  assumes "compiles_once f"
  obtains es where "extends w (f w) es" "compiles es = 1" "scheduled es = []"
  using assms unfolding compiles_once_def by blast

lemma elapse_due_step: "elapse f d w = (foldl (due_step f (now w + d)) w [0..<length (timers w)])\<lparr>now := now w + d\<rparr>"
proof -
  have "(\<lambda>w' t. if t < length (timers w') \<and> status (timers w' ! t) = Pending
                        \<and> deadline (timers w' ! t) \<le> now w + d
                     then fire f t w' else w') = due_step f (now w + d)"
    by (intro ext) (simp add: due_step_def)
  then show ?thesis by (simp add: elapse_def)
qed

lemma due_step_run:
  assumes f: "compiles_once f" and n: "n < length (timers w)"
  shows "\<exists>es. trace (due_step f T w n) = trace w @ es \<and>
          timers (due_step f T w n) = (timers w)[n := fire_due T (timers w ! n)] \<and>
          compiles es = (if status (timers w ! n) = Pending \<and> deadline (timers w ! n) \<le> T then 1 else 0) \<and>
          scheduled es = []"
proof (cases "status (timers w ! n) = Pending \<and> deadline (timers w ! n) \<le> T")
  case False
  then have "due_step f T w n = w" by (auto simp add: due_step_def)
  moreover from False have "(timers w)[n := fire_due T (timers w ! n)] = timers w"
    by (auto simp add: fire_due_def)
  ultimately have "trace (due_step f T w n) = trace w @ [] \<and>
          timers (due_step f T w n) = (timers w)[n := fire_due T (timers w ! n)] \<and>
          compiles [] = (if status (timers w ! n) = Pending \<and> deadline (timers w ! n) \<le> T then 1 else 0) \<and>
          scheduled [] = []"
    using False by (simp add: compiles_def)
  then show ?thesis by blast
next
  case True
  let ?w = "w\<lparr>now := max (now w) (deadline (timers w ! n)),
          timers := (timers w)[n := (timers w ! n)\<lparr>status := Fired\<rparr>]\<rparr>"
  from True n have d: "due_step f T w n = f ?w" by (simp add: due_step_def fire_def)
  from compiles_onceD[OF f, of ?w] obtain es where
    es: "extends ?w (f ?w) es" "compiles es = 1" "scheduled es = []" by blast
  from extends_fields(7,8)[OF es(1)] True
  have "trace (due_step f T w n) = trace w @ es \<and>
          timers (due_step f T w n) = (timers w)[n := fire_due T (timers w ! n)]"
    unfolding d by (simp add: fire_due_def)
  with es(2,3) True show ?thesis by auto
qed

lemma fold_due_step:
  assumes f: "compiles_once f"
  shows "n \<le> length (timers w) \<Longrightarrow>
         \<exists>es. trace (foldl (due_step f T) w [0..<n]) = trace w @ es \<and>
          timers (foldl (due_step f T) w [0..<n]) = map (fire_due T) (take n (timers w)) @ drop n (timers w) \<and>
          compiles es = length (filter (\<lambda>tm. status tm = Pending \<and> deadline tm \<le> T) (take n (timers w))) \<and>
          scheduled es = []"
proof (induction n)
  case 0
  have "trace (foldl (due_step f T) w [0..<0]) = trace w @ [] \<and>
          timers (foldl (due_step f T) w [0..<0]) = map (fire_due T) (take 0 (timers w)) @ drop 0 (timers w) \<and>
          compiles [] = length (filter (\<lambda>tm. status tm = Pending \<and> deadline tm \<le> T) (take 0 (timers w))) \<and>
          scheduled [] = []" by (simp add: compiles_def)
  then show ?case by blast
next
  case (Suc n)
  let ?w = "foldl (due_step f T) w [0..<n]"
  let ?ts = "timers w"
  from Suc have n: "n < length ?ts" by simp
  from Suc.IH n obtain es1 where
    es1: "trace ?w = trace w @ es1"
      "timers ?w = map (fire_due T) (take n ?ts) @ drop n ?ts"
      "compiles es1 = length (filter (\<lambda>tm. status tm = Pending \<and> deadline tm \<le> T) (take n ?ts))"
      "scheduled es1 = []" by auto
  have len: "length (timers ?w) = length ?ts" using es1(2) n by simp
  have nth: "timers ?w ! n = ?ts ! n" using es1(2) n by (simp add: nth_append)
  from due_step_run[OF f, of n ?w T] n len obtain es2 where
    es2: "trace (due_step f T ?w n) = trace ?w @ es2"
      "timers (due_step f T ?w n) = (timers ?w)[n := fire_due T (timers ?w ! n)]"
      "compiles es2 = (if status (timers ?w ! n) = Pending \<and> deadline (timers ?w ! n) \<le> T then 1 else 0)"
      "scheduled es2 = []" by auto
  have step: "foldl (due_step f T) w [0..<Suc n] = due_step f T ?w n" by simp
  have t: "trace (due_step f T ?w n) = trace w @ (es1 @ es2)" using es1(1) es2(1) by simp
  have tk: "take (Suc n) ?ts = take n ?ts @ [?ts ! n]" using n by (simp add: take_Suc_conv_app_nth)
  have dr: "drop n ?ts = ?ts ! n # drop (Suc n) ?ts" using n by (simp add: Cons_nth_drop_Suc)
  have "timers (due_step f T ?w n) = (timers ?w)[n := fire_due T (?ts ! n)]"
    using es2(2) nth by simp
  then have tm: "timers (due_step f T ?w n) = map (fire_due T) (take (Suc n) ?ts) @ drop (Suc n) ?ts"
    unfolding es1(2) tk using n by (simp add: dr list_update_append)
  have c: "compiles (es1 @ es2) =
        length (filter (\<lambda>tm. status tm = Pending \<and> deadline tm \<le> T) (take (Suc n) ?ts))"
    unfolding tk using es1(3) es2(3) nth by (simp add: compiles_def)
  have s: "scheduled (es1 @ es2) = []" using es1(4) es2(4) by (simp add: scheduled_append)
  from t tm c s show ?case unfolding step by blast
qed

lemma elapse_run:
  assumes f: "compiles_once f"
  shows "\<exists>es. trace (elapse f d w) = trace w @ es \<and>
          timers (elapse f d w) = map (fire_due (now w + d)) (timers w) \<and>
          now (elapse f d w) = now w + d \<and>
          compiles es = length (filter (\<lambda>tm. status tm = Pending \<and> deadline tm \<le> now w + d) (timers w)) \<and>
          scheduled es = []"
  using fold_due_step[OF f, of "length (timers w)" w "now w + d"]
  unfolding elapse_due_step by auto

lemma pending_emit [simp]: "pending (emit e w) = pending w"
  by (simp add: pending_def)

lemma pending_fire_due:
  "filter (\<lambda>tm. status tm = Pending) (map (fire_due T) ts) =
   filter (\<lambda>tm. status tm = Pending \<and> \<not> deadline tm \<le> T) ts"
  by (induction ts) (auto simp add: fire_due_def)

lemma fire_due_not_pending:
  "list_all (\<lambda>tm. status tm \<noteq> Pending) ts \<Longrightarrow> map (fire_due T) ts = ts"
  by (induction ts) (auto simp add: fire_due_def)

lemma pending_empty_iff: "pending w = [] \<longleftrightarrow> list_all (\<lambda>tm. status tm \<noteq> Pending) (timers w)"
  by (auto simp add: pending_def filter_empty_conv list_all_iff)

lemma debounce_elapse:
  assumes f: "compiles_once f" and s: "debounce_state w debounce l"
  shows "debounce_state (elapse f d w) debounce l"
proof -
  from elapse_run[OF f, of d w] have
    t: "timers (elapse f d w) = map (fire_due (now w + d)) (timers w)"
    and n: "now (elapse f d w) = now w + d" by auto
  show ?thesis
  proof (cases l)
    case None
    with s have "debounce = None" "pending w = []" by (simp_all add: debounce_state_def)
    then have "pending (elapse f d w) = []"
      unfolding pending_empty_iff t by (simp add: fire_due_not_pending)
    with None \<open>debounce = None\<close> show ?thesis by (simp add: debounce_state_def)
  next
    case (Some t0)
    with s have a: "timers w \<noteq> []" "debounce = Some (length (timers w) - 1)"
      "list_all (\<lambda>tm. status tm \<noteq> Pending) (butlast (timers w))"
      "last (timers w) = \<lparr>deadline = t0 + 100, status = (if now w < t0 + 100 then Pending else Fired)\<rparr>"
      by (simp_all add: debounce_state_def)
    have b: "butlast (timers (elapse f d w)) = butlast (timers w)"
      unfolding t map_butlast[symmetric] by (rule fire_due_not_pending[OF a(3)])
    have l: "last (timers (elapse f d w)) =
       \<lparr>deadline = t0 + 100, status = (if now w + d < t0 + 100 then Pending else Fired)\<rparr>"
      unfolding t using a(1) a(4) by (auto simp add: last_map fire_due_def)
    from a b l show ?thesis unfolding Some debounce_state_def n by (simp add: t)
  qed
qed

lemma Stop_run:
  "now (Stop t w) = now w \<and> trace (Stop t w) = trace w @ [TimerStop t] \<and>
   length (timers (Stop t w)) = length (timers w) \<and>
   length (pending (Stop t w)) \<le> length (pending w)"
proof (cases "t < length (timers w) \<and> status (timers w ! t) = Pending")
  case False
  then show ?thesis by (auto simp add: Stop_def)
next
  case True
  have "length (filter (\<lambda>tm. status tm = Pending) (ts[t := (ts ! t)\<lparr>status := Stopped\<rparr>]))
        \<le> length (filter (\<lambda>tm. status tm = Pending) ts)" for ts :: "timer list"
  proof (induction ts arbitrary: t)
    case Nil
    show ?case by simp
  next
    case (Cons a ts)
    show ?case using Cons[of "t - 1"] by (cases t) (auto simp add: le_SucI)
  qed
  with True show ?thesis by (simp add: Stop_def pending_def)
qed

lemma Stop_last:
  assumes "timers w \<noteq> []" "list_all (\<lambda>tm. status tm \<noteq> Pending) (butlast (timers w))"
  shows "pending (Stop (length (timers w) - 1) w) = []"
proof -
  obtain ts tm where ts: "timers w = ts @ [tm]" using assms(1) by (metis append_butlast_last_id)
  with assms(2) have np: "list_all (\<lambda>tm. status tm \<noteq> Pending) ts" by simp
  show ?thesis
    unfolding pending_empty_iff using np ts by (auto simp add: Stop_def nth_append)
qed

lemma debounce_trigger:
  assumes s: "debounce_state w debounce l"
  shows "debounce_state
           (snd (AfterFunc 100 (case debounce of None \<Rightarrow> w | Some t \<Rightarrow> Stop t w)))
           (Some (fst (AfterFunc 100 (case debounce of None \<Rightarrow> w | Some t \<Rightarrow> Stop t w))))
           (Some (now w))"
proof -
  let ?w1 = "case debounce of None \<Rightarrow> w | Some t \<Rightarrow> Stop t w"
  have p: "pending ?w1 = []" and n: "now ?w1 = now w"
  proof -
    show "pending ?w1 = []"
    proof (cases l)
      case None
      with s show ?thesis by (simp add: debounce_state_def)
    next
      case (Some t0)
      with s have a: "timers w \<noteq> []" "debounce = Some (length (timers w) - 1)"
        "list_all (\<lambda>tm. status tm \<noteq> Pending) (butlast (timers w))"
        by (simp_all add: debounce_state_def)
      from Stop_last[OF a(1) a(3)] a(2) show ?thesis by simp
    qed
    show "now ?w1 = now w" using Stop_run by (cases debounce) simp_all
  qed
  from p have np: "list_all (\<lambda>tm. status tm \<noteq> Pending) (timers ?w1)" by (simp add: pending_empty_iff)
  show ?thesis
    unfolding debounce_state_def using np n by (simp add: AfterFunc_def)
qed

lemma watch_loop_debounce:
  assumes f: "compiles_once f"
  shows "debounce_state w debounce l \<Longrightarrow>
         watch_loop f absPath debounce ins w = (r, debounce', w') \<Longrightarrow>
         trigger_history absPath (now w) l ins = (l', t') \<Longrightarrow>
         debounce_state w' debounce' l' \<and> now w' = t'"
proof (induction ins arbitrary: w debounce l)
  case Nil
  then show ?case by simp
next
  case (Cons i ins)
  show ?case
  proof (cases i)
    case (FsEvent event)
    show ?thesis
    proof (cases "triggers absPath event")
      case False
      with Cons.prems FsEvent Cons.IH[of w debounce l] show ?thesis by simp
    next
      case True
      let ?w1 = "case debounce of None \<Rightarrow> w | Some t \<Rightarrow> Stop t w"
      let ?w2 = "snd (AfterFunc 100 ?w1)"
      let ?t = "fst (AfterFunc 100 ?w1)"
      have n: "now ?w2 = now w" using Stop_run by (cases debounce) (simp_all add: AfterFunc_def)
      from Cons.prems(2) FsEvent True
      have 1: "watch_loop f absPath (Some ?t) ins ?w2 = (r, debounce', w')"
        by (simp add: Let_def split_beta)
      from Cons.prems(3) FsEvent True
      have 2: "trigger_history absPath (now ?w2) (Some (now w)) ins = (l', t')"
        by (simp add: n)
      from Cons.IH[OF debounce_trigger[OF Cons.prems(1)] 1 2] show ?thesis .
    qed
  next
    case EventsClosed
    with Cons.prems show ?thesis by auto
  next
    case (WatcherError e)
    let ?w1 = "emit (Print (esc @ ''[31mWatcher error: '' @ error_text e @ esc @ ''[0m'' @ nl)) w"
    have s: "debounce_state ?w1 debounce l"
      using Cons.prems(1) by (simp add: debounce_state_def split: option.splits)
    from Cons.prems WatcherError Cons.IH[OF s, of ] show ?thesis by simp
  next
    case ErrorsClosed
    with Cons.prems show ?thesis by auto
  next
    case (Elapse d)
    from elapse_run[OF f, of d w] have n: "now (elapse f d w) = now w + d" by auto
    from Cons.prems Elapse Cons.IH[OF debounce_elapse[OF f Cons.prems(1), of d]]
    show ?thesis by (simp add: n)
  qed
qed

lemma debounce_state_pending:
  "debounce_state w debounce l \<Longrightarrow> length (pending w) \<le> 1"
proof (cases l)
  case None
  assume "debounce_state w debounce l"
  with None show ?thesis by (simp add: debounce_state_def)
next
  case (Some t0)
  assume "debounce_state w debounce l"
  with Some have a: "timers w \<noteq> []"
    "list_all (\<lambda>tm. status tm \<noteq> Pending) (butlast (timers w))"
    by (simp_all add: debounce_state_def)
  then obtain ts tm where ts: "timers w = ts @ [tm]" by (metis append_butlast_last_id)
  with a(2) have "filter (\<lambda>tm. status tm = Pending) ts = []"
    by (simp add: filter_empty_conv list_all_iff)
  then show ?thesis by (simp add: pending_def ts)
qed

lemma due_split:
  "length (filter (\<lambda>tm. status tm = Pending \<and> deadline tm \<le> T) ts) +
   length (filter (\<lambda>tm. status tm = Pending \<and> \<not> deadline tm \<le> T) ts) =
   length (filter (\<lambda>tm. status tm = Pending) ts)"
  by (induction ts) auto

lemma watch_loop_compiles:
  assumes f: "compiles_once f"
  shows "watch_loop f absPath debounce ins w = (r, debounce', w') \<Longrightarrow>
         \<exists>es. trace w' = trace w @ es \<and>
           compiles es + length (pending w') \<le> length (pending w) + trigger_count absPath ins"
proof (induction ins arbitrary: w debounce)
  case Nil
  then have "trace w' = trace w @ [] \<and>
           compiles [] + length (pending w') \<le> length (pending w) + trigger_count absPath []"
    by (simp add: compiles_def)
  then show ?case by blast
next
  case (Cons i ins)
  have ret: ?case if "w' = w" "trigger_count absPath (i # ins) = 0"
  proof -
    from that have "trace w' = trace w @ [] \<and>
           compiles [] + length (pending w') \<le> length (pending w) + trigger_count absPath (i # ins)"
      by (simp add: compiles_def)
    then show ?thesis by blast
  qed
  have step: ?case
    if l: "watch_loop f absPath db ins w1 = (r, debounce', w')"
      and t: "trace w1 = trace w @ es1"
      and c: "compiles es1 + length (pending w1) + trigger_count absPath ins
                \<le> length (pending w) + trigger_count absPath (i # ins)"
    for db w1 es1
  proof -
    from Cons.IH[OF l] obtain es2 where es2: "trace w' = trace w1 @ es2"
      "compiles es2 + length (pending w') \<le> length (pending w1) + trigger_count absPath ins"
      by blast
    have "trace w' = trace w @ (es1 @ es2)" using t es2(1) by simp
    moreover have "compiles (es1 @ es2) + length (pending w')
        \<le> length (pending w) + trigger_count absPath (i # ins)"
      using c es2(2) by (simp add: compiles_def)
    ultimately show ?thesis by blast
  qed
  show ?case
  proof (cases i)
    case (FsEvent event)
    show ?thesis
    proof (cases "triggers absPath event")
      case False
      with Cons.prems FsEvent have l: "watch_loop f absPath debounce ins w = (r, debounce', w')" by simp
      show ?thesis
        by (rule step[OF l, of "[]"]) (simp_all add: compiles_def FsEvent False)
    next
      case True
      let ?w1 = "case debounce of None \<Rightarrow> w | Some t \<Rightarrow> Stop t w"
      let ?es1 = "case debounce of None \<Rightarrow> [] | Some t \<Rightarrow> [TimerStop t]"
      let ?w2 = "snd (AfterFunc 100 ?w1)"
      let ?t = "fst (AfterFunc 100 ?w1)"
      have w1: "trace ?w1 = trace w @ ?es1" "length (pending ?w1) \<le> length (pending w)"
        using Stop_run by (cases debounce; simp)+
      have w2: "trace ?w2 = trace w @ (?es1 @ [TimerStart (length (timers ?w1)) (now ?w1 + 100)])"
        "length (pending ?w2) = length (pending ?w1) + 1"
        using w1(1) by (simp_all add: AfterFunc_def pending_def)
      from Cons.prems FsEvent True
      have l: "watch_loop f absPath (Some ?t) ins ?w2 = (r, debounce', w')"
        by (simp add: Let_def split_beta)
      have c: "compiles (?es1 @ [TimerStart (length (timers ?w1)) (now ?w1 + 100)]) = 0"
        by (cases debounce) (simp_all add: compiles_def)
      show ?thesis
        by (rule step[OF l w2(1)]) (use w1(2) w2(2) c in \<open>simp add: FsEvent True\<close>)
    qed
  next
    case EventsClosed
    with Cons.prems show ?thesis by (intro ret) auto
  next
    case (WatcherError e)
    let ?p = "Print (esc @ ''[31mWatcher error: '' @ error_text e @ esc @ ''[0m'' @ nl)"
    from Cons.prems WatcherError
    have l: "watch_loop f absPath debounce ins (emit ?p w) = (r, debounce', w')" by simp
    show ?thesis
      by (rule step[OF l, of "[?p]"]) (simp_all add: compiles_def WatcherError)
  next
    case ErrorsClosed
    with Cons.prems show ?thesis by (intro ret) auto
  next
    case (Elapse d)
    from elapse_run[OF f, of d w] obtain es1 where
      es1: "trace (elapse f d w) = trace w @ es1"
        "timers (elapse f d w) = map (fire_due (now w + d)) (timers w)"
        "compiles es1 = length (filter (\<lambda>tm. status tm = Pending \<and> deadline tm \<le> now w + d) (timers w))"
      by blast
    have p: "compiles es1 + length (pending (elapse f d w)) = length (pending w)"
      unfolding es1(3) pending_def es1(2) pending_fire_due by (rule due_split)
    from Cons.prems Elapse
    have l: "watch_loop f absPath debounce ins (elapse f d w) = (r, debounce', w')" by simp
    show ?thesis
      by (rule step[OF l es1(1)]) (use p in \<open>simp add: Elapse\<close>)
  qed
qed

lemma compile_report_run:
  "\<exists>es. extends w (compile_report pk baseURL compiler filePath args showSource projectRoot w)
          (CompileCalled # es) \<and> list_all is_io es"
proof -
  let ?c = "compile pk baseURL compiler filePath args showSource projectRoot w"
  from compile_run[of w pk baseURL compiler filePath args showSource projectRoot]
  obtain es where es: "extends w (snd ?c) (CompileCalled # es)" "list_all is_io es" by blast
  show ?thesis
  proof (cases "fst ?c")
    case None
    then have "compile_report pk baseURL compiler filePath args showSource projectRoot w = snd ?c"
      by (simp add: compile_report_def split_beta)
    with es show ?thesis by auto
  next
    case (Some err)
    let ?p = "Print (esc @ ''[31mError: '' @ Error err @ esc @ ''[0m'' @ nl)"
    from Some have "compile_report pk baseURL compiler filePath args showSource projectRoot w =
        emit ?p (snd ?c)"
      by (simp add: compile_report_def split_beta)
    moreover from extends_trans[OF es(1) extends_emit[of "snd ?c" ?p]]
    have "extends w (emit ?p (snd ?c)) (CompileCalled # (es @ [?p]))" by simp
    moreover have "list_all is_io (es @ [?p])" using es(2) by simp
    ultimately show ?thesis by metis
  qed
qed

lemma recompile_once:
  "compiles_once (recompile pk baseURL compiler filePath args showSource projectRoot)"
  unfolding compiles_once_def
proof
  fix w :: world
  let ?p = "Print (esc @ ''[34m'' @ bolt @ '' '' @ filePath @ '' '' @ emdash @ '' ''
                     @ time_Format pk (now w) @ esc @ ''[0m'' @ nl @ nl)"
  let ?w1 = "emit ?p (emit ClearScreen w)"
  from compile_report_run[of ?w1 pk baseURL compiler filePath args showSource projectRoot]
  obtain es where es: "extends ?w1
       (compile_report pk baseURL compiler filePath args showSource projectRoot ?w1)
       (CompileCalled # es)" "list_all is_io es" by blast
  from extends_trans[OF extends_trans[OF extends_emit[of w ClearScreen] extends_emit[of "emit ClearScreen w" ?p]] es(1)]
  have "extends w (recompile pk baseURL compiler filePath args showSource projectRoot w)
          ([ClearScreen] @ [?p] @ CompileCalled # es)"
    by (simp add: recompile_def clearScreen_def)
  moreover have "compiles ([ClearScreen] @ [?p] @ CompileCalled # es) = 1"
    using compiles_io[OF es(2)] by (simp add: compiles_def)
  moreover have "scheduled ([ClearScreen] @ [?p] @ CompileCalled # es) = []"
    using scheduled_io[OF es(2)] by simp
  ultimately show "\<exists>es. extends w (recompile pk baseURL compiler filePath args showSource projectRoot w) es \<and>
        compiles es = 1 \<and> scheduled es = []" by blast
qed


lemma two_writes_run:
  "pending example_world = []"
  "triggers ''/p/main.zig'' write_main"
  "trigger_history ''/p/main.zig'' (now example_world) None two_writes = (Some 50, 110)"
  "trigger_history ''/p/main.zig'' (now example_world) None (two_writes @ [Elapse 40]) = (Some 50, 150)"
  "fst (snd (watch_loop example_recompile ''/p/main.zig'' None two_writes example_world)) = Some 1"
  "timers (snd (snd (watch_loop example_recompile ''/p/main.zig'' None two_writes example_world))) =
     [\<lparr>deadline = 100, status = Stopped\<rparr>, \<lparr>deadline = 150, status = Pending\<rparr>]"
  "compiles (trace (snd (snd (watch_loop example_recompile ''/p/main.zig'' None two_writes example_world)))) = 0"
  "timers (snd (snd (watch_loop example_recompile ''/p/main.zig'' None (two_writes @ [Elapse 40])
     example_world))) =
     [\<lparr>deadline = 100, status = Stopped\<rparr>, \<lparr>deadline = 150, status = Fired\<rparr>]"
  "compiles (trace (snd (snd (watch_loop example_recompile ''/p/main.zig'' None (two_writes @ [Elapse 40])
     example_world)))) = 1"
  by code_simp+

lemma extends_pending: "extends w w' es \<Longrightarrow> pending w' = pending w"
  by (simp add: pending_def extends_fields)

lemma watch_first:
  "\<exists>es. trace (snd (watch pk baseURL compiler filePath args showSource projectRoot ins w)) =
          trace w @ WatcherNew # es"
proof -
  let ?f = "recompile pk baseURL compiler filePath args showSource projectRoot"
  have loop: "\<exists>es. trace (case watch_loop ?f absPath None ins w3 of
                          (Running, debounce, w4) \<Rightarrow> w4
                        | (Returned r, debounce, w4) \<Rightarrow> emit WatcherClose w4) = trace w3 @ es"
    for absPath w3
  proof -
    obtain r debounce w4 where l: "watch_loop ?f absPath None ins w3 = (r, debounce, w4)"
      by (cases "watch_loop ?f absPath None ins w3") auto
    from watch_loop_compiles[OF recompile_once l] obtain es where "trace w4 = trace w3 @ es" by blast
    then show ?thesis unfolding l by (cases r) simp_all
  qed
  show ?thesis
  proof (cases "new_watcher w")
    case (Some e)
    then show ?thesis by (simp add: watch_def)
  next
    case None
    note nw = this
    show ?thesis
    proof (cases "Abs w filePath")
      case (Inl e)
      with nw show ?thesis by (simp add: watch_def)
    next
      case (Inr absPath)
      note ab = this
      show ?thesis
      proof (cases "watcher_add w (Dir absPath)")
        case (Some e)
        with nw ab show ?thesis by (simp add: watch_def Let_def)
      next
        case None
        let ?w2 = "emit (Print (esc @ ''[34m   Server: '' @ baseURL @ esc @ ''[0m'' @ nl @ nl))
                               (emit (Print (esc @ ''[34m   Args: '' @ args @ esc @ ''[0m'' @ nl))
                               (emit (Print (esc @ ''[34m   Compiler: '' @ compiler @ esc @ ''[0m'' @ nl))
                               (emit (Print (esc @ ''[34m'' @ bolt @ '' Watching '' @ filePath @ esc
                                             @ ''[0m'' @ nl)) (emit (WatcherAdd (Dir absPath)) (emit WatcherNew w)))))"
        let ?w3 = "compile_report pk baseURL compiler filePath args showSource projectRoot ?w2"
        from compile_report_run[of ?w2 pk baseURL compiler filePath args showSource projectRoot]
        obtain es3 where "extends ?w2 ?w3 (CompileCalled # es3)" by blast
        then have t3: "trace ?w3 = trace ?w2 @ CompileCalled # es3" by (simp add: extends_fields)
        from loop[of absPath ?w3] obtain es4 where
          es4: "trace (case watch_loop ?f absPath None ins ?w3 of
                          (Running, debounce, w4) \<Rightarrow> w4
                        | (Returned r, debounce, w4) \<Rightarrow> emit WatcherClose w4) = trace ?w3 @ es4"
          by blast
        have "snd (watch pk baseURL compiler filePath args showSource projectRoot ins w) =
            (case watch_loop ?f absPath None ins ?w3 of
                          (Running, debounce, w4) \<Rightarrow> w4
                        | (Returned r, debounce, w4) \<Rightarrow> emit WatcherClose w4)"
          using nw ab None by (simp add: watch_def Let_def split: prod.splits run.splits)
        with es4 t3 show ?thesis by simp
      qed
    qed
  qed
qed

lemma watch_run:
  assumes p: "pending w = []" and nw: "new_watcher w = None" and ab: "Abs w filePath = Inr absPath"
    and ad: "watcher_add w (Dir absPath) = None"
  shows "\<exists>es. trace (snd (watch pk baseURL compiler filePath args showSource projectRoot ins w)) =
          trace w @ es \<and> 1 \<le> compiles es \<and> compiles es \<le> 1 + trigger_count absPath ins"
proof -
  let ?f = "recompile pk baseURL compiler filePath args showSource projectRoot"
  let ?es2 = "[WatcherNew, WatcherAdd (Dir absPath),
               Print (esc @ ''[34m'' @ bolt @ '' Watching '' @ filePath @ esc @ ''[0m'' @ nl),
               Print (esc @ ''[34m   Compiler: '' @ compiler @ esc @ ''[0m'' @ nl),
               Print (esc @ ''[34m   Args: '' @ args @ esc @ ''[0m'' @ nl),
               Print (esc @ ''[34m   Server: '' @ baseURL @ esc @ ''[0m'' @ nl @ nl)]"
  let ?w2 = "emit (Print (esc @ ''[34m   Server: '' @ baseURL @ esc @ ''[0m'' @ nl @ nl))
                               (emit (Print (esc @ ''[34m   Args: '' @ args @ esc @ ''[0m'' @ nl))
                               (emit (Print (esc @ ''[34m   Compiler: '' @ compiler @ esc @ ''[0m'' @ nl))
                               (emit (Print (esc @ ''[34m'' @ bolt @ '' Watching '' @ filePath @ esc
                                             @ ''[0m'' @ nl)) (emit (WatcherAdd (Dir absPath)) (emit WatcherNew w)))))"
  let ?w3 = "compile_report pk baseURL compiler filePath args showSource projectRoot ?w2"
  have t2: "trace ?w2 = trace w @ ?es2" "pending ?w2 = pending w" by simp_all
  from compile_report_run[of ?w2 pk baseURL compiler filePath args showSource projectRoot]
  obtain es3 where es3: "extends ?w2 ?w3 (CompileCalled # es3)" "list_all is_io es3" by blast
  have t3: "trace ?w3 = trace ?w2 @ CompileCalled # es3" using es3(1) by (simp add: extends_fields)
  have p3: "pending ?w3 = []" using extends_pending[OF es3(1)] t2(2) p by simp
  obtain r debounce w4 where l: "watch_loop ?f absPath None ins ?w3 = (r, debounce, w4)"
    by (cases "watch_loop ?f absPath None ins ?w3") auto
  from watch_loop_compiles[OF recompile_once l] p3 obtain es4 where
    es4: "trace w4 = trace ?w3 @ es4" "compiles es4 \<le> trigger_count absPath ins" by auto
  let ?es5 = "case r of Running \<Rightarrow> [] | Returned x \<Rightarrow> [WatcherClose]"
  have "snd (watch pk baseURL compiler filePath args showSource projectRoot ins w) =
            (case r of Running \<Rightarrow> w4 | Returned x \<Rightarrow> emit WatcherClose w4)"
    using nw ab ad l by (simp add: watch_def Let_def split: run.splits)
  then have t: "trace (snd (watch pk baseURL compiler filePath args showSource projectRoot ins w)) =
      trace w @ (?es2 @ CompileCalled # es3 @ es4 @ ?es5)"
    using es4(1) t3 t2(1) by (cases r) simp_all
  have c: "compiles (?es2 @ CompileCalled # es3 @ es4 @ ?es5) = 1 + compiles es4"
    using compiles_io[OF es3(2)] by (cases r) (simp_all add: compiles_def)
  from t c es4(2) show ?thesis by (intro exI[of _ "?es2 @ CompileCalled # es3 @ es4 @ ?es5"]) simp
qed

lemma io_no_watcher: "list_all is_io es \<Longrightarrow> WatcherNew \<notin> set es"
  by (induction es) auto

lemma main_examples:
  "fst (main example_packages once_flags [] [] example_world) = Returned 1"
  "compiles (new_effects example_world (snd (main example_packages once_flags [] [] example_world))) = 0"
  "fst (main example_packages watch_flags [''main.zig''] [] no_watcher_world) = Returned 1"
  "compiles (new_effects no_watcher_world
     (snd (main example_packages watch_flags [''main.zig''] [] no_watcher_world))) = 0"
  "fst (main example_packages once_flags [''main.zig''] [] example_world) = Returned 0"
  "compiles (new_effects example_world
     (snd (main example_packages once_flags [''main.zig''] [] example_world))) = 1"
  "fst (main example_packages watch_flags [''main.zig''] (two_writes @ [Elapse 40]) example_world) = Running"
  "compiles (new_effects example_world
     (snd (main example_packages watch_flags [''main.zig''] (two_writes @ [Elapse 40]) example_world))) = 2"
  "compiles (new_effects example_world
     (snd (main example_packages watch_flags [''main.zig''] [] example_world))) = 1"
  "trigger_count ''/p/main.zig'' (two_writes @ [Elapse 40]) = 2"
  "Abs example_world ''main.zig'' = Inr ''/p/main.zig''"
  "watcher_add example_world (Dir ''/p/main.zig'') = None"
  "new_watcher example_world = None"
  "Stat (fsys example_world) ''main.zig'' = None"
  by code_simp+

subsection \<open>Claims about watch and main\<close>



text \<open>
  Claim C7: the events are debounced.  In a world without pending timers the loop,
  whatever inputs it has handled, holds at most one pending timer: the one in its
  variable \<open>debounce\<close>, whose deadline is 100 milliseconds after the last event that met
  the condition; it is pending until the clock reaches the deadline and has fired from
  then on (\<open>debounce_state\<close>).  And an event that meets the condition while the
  variable holds a timer stops that timer first and then starts the new one.  (The clock
  is a count of milliseconds and a timer fires when the clock reaches its deadline; the
  scheduling delay of a real timer is not part of the model.)
\<close>

theorem watch_loop_debounces:
  "(pending w = [] \<longrightarrow>
      (case watch_loop (recompile pk baseURL compiler filePath args showSource projectRoot)
              absPath None ins w of
         (r, debounce, w') \<Rightarrow>
           (case trigger_history absPath (now w) None ins of
              (l, t) \<Rightarrow> now w' = t \<and> length (pending w') \<le> 1 \<and> debounce_state w' debounce l))) \<and>
   (triggers absPath event \<longrightarrow>
      new_effects w
        (snd (snd (watch_loop (recompile pk baseURL compiler filePath args showSource projectRoot)
                     absPath (Some tm) [FsEvent event] w))) =
        [TimerStop tm, TimerStart (length (timers w)) (now w + 100)])"
proof (intro conjI impI)
  let ?f = "recompile pk baseURL compiler filePath args showSource projectRoot"
  assume p: "pending w = []"
  obtain r debounce w' where l: "watch_loop ?f absPath None ins w = (r, debounce, w')"
    by (cases "watch_loop ?f absPath None ins w") auto
  obtain l t where h: "trigger_history absPath (now w) None ins = (l, t)"
    by (cases "trigger_history absPath (now w) None ins") auto
  have s: "debounce_state w None None" using p by (simp add: debounce_state_def)
  from watch_loop_debounce[OF recompile_once s l h]
  have "debounce_state w' debounce l" "now w' = t" by simp_all
  with debounce_state_pending[of w' debounce l]
  show "case watch_loop ?f absPath None ins w of
         (r, debounce, w') \<Rightarrow>
           (case trigger_history absPath (now w) None ins of
              (l, t) \<Rightarrow> now w' = t \<and> length (pending w') \<le> 1 \<and> debounce_state w' debounce l)"
    unfolding l h by simp
next
  let ?f = "recompile pk baseURL compiler filePath args showSource projectRoot"
  assume t: "triggers absPath event"
  have "trace (Stop tm w) = trace w @ [TimerStop tm]" "length (timers (Stop tm w)) = length (timers w)"
    "now (Stop tm w) = now w" using Stop_run by simp_all
  with t show "new_effects w (snd (snd (watch_loop ?f absPath (Some tm) [FsEvent event] w))) =
        [TimerStop tm, TimerStart (length (timers w)) (now w + 100)]"
    by (simp add: Let_def split_beta AfterFunc_def new_effects_def)
qed

theorem watch_loop_debounces_witness:
  "pending example_world = [] \<and>
   triggers ''/p/main.zig'' write_main \<and>
   timers (snd (snd (watch_loop example_recompile ''/p/main.zig'' None two_writes example_world))) =
     [\<lparr>deadline = 100, status = Stopped\<rparr>, \<lparr>deadline = 150, status = Pending\<rparr>] \<and>
   compiles (trace (snd (snd (watch_loop example_recompile ''/p/main.zig'' None two_writes example_world)))) = 0 \<and>
   timers (snd (snd (watch_loop example_recompile ''/p/main.zig'' None (two_writes @ [Elapse 40])
     example_world))) =
     [\<lparr>deadline = 100, status = Stopped\<rparr>, \<lparr>deadline = 150, status = Fired\<rparr>] \<and>
   compiles (trace (snd (snd (watch_loop example_recompile ''/p/main.zig'' None (two_writes @ [Elapse 40])
     example_world)))) = 1 \<and>
   now (snd (snd (watch_loop example_recompile ''/p/main.zig'' None two_writes example_world))) = 110 \<and>
   debounce_state
     (snd (snd (watch_loop example_recompile ''/p/main.zig'' None two_writes example_world)))
     (Some 1) (Some 50) \<and>
   new_effects example_world
     (snd (snd (watch_loop example_recompile ''/p/main.zig'' (Some 7) [FsEvent write_main] example_world))) =
     [TimerStop 7, TimerStart 0 100]"
proof -
  note inst = watch_loop_debounces[where pk = example_packages and baseURL = "''https://godbolt.org''"
      and compiler = "''ztrunk''" and filePath = "''main.zig''" and args = "''-O3''"
      and showSource = False and projectRoot = "''''" and absPath = "''/p/main.zig''"
      and w = example_world and event = write_main, folded example_recompile_def]
  from inst[where ins = two_writes and tm = 7] two_writes_run(1,2,3,5)
  have "now (snd (snd (watch_loop example_recompile ''/p/main.zig'' None two_writes example_world))) = 110"
    "debounce_state
     (snd (snd (watch_loop example_recompile ''/p/main.zig'' None two_writes example_world)))
     (Some 1) (Some 50)"
    "new_effects example_world
     (snd (snd (watch_loop example_recompile ''/p/main.zig'' (Some 7) [FsEvent write_main] example_world))) =
     [TimerStop 7, TimerStart 0 100]"
    by (auto simp add: split_beta example_world_def)
  with two_writes_run show ?thesis by simp
qed

text \<open>
  Claim C8, as the claim states it, fails on the code: \<open>main\<close> first checks that a file
  argument is given and that the file exists, and \<open>watch\<close> first makes the watcher.
  With \<open>-once\<close> and no file argument the program exits with status 1 and has not
  invoked \<open>compile\<close>; without \<open>-once\<close>, when no watcher can be made, the program
  exits with status 1 and has not invoked \<open>compile\<close> either.
\<close>

theorem main_no_compile_counterexample:
  "fst (main example_packages once_flags [] [] example_world) = Returned 1 \<and>
   compiles (new_effects example_world (snd (main example_packages once_flags [] [] example_world))) = 0 \<and>
   fst (main example_packages watch_flags [''main.zig''] [] no_watcher_world) = Returned 1 \<and>
   compiles (new_effects no_watcher_world
     (snd (main example_packages watch_flags [''main.zig''] [] no_watcher_world))) = 0"
  by code_simp

text \<open>
  Claim C8, amended: when a file argument is given and the file exists, a compile is
  triggered by one of two mechanisms.  With \<open>-once\<close> the program invokes \<open>compile\<close>
  exactly once and exits, and makes neither a watcher nor a timer.  Without it the
  program enters \<open>watch\<close>, whose first effect is making the watcher; when the watcher is
  made and the directory added, \<open>watch\<close> invokes \<open>compile\<close> once at the start, and
  after that at most once for each event that meets the condition of line 325.  (The
  world at the start has no pending timer.)
\<close>

theorem main_compile_modes:
  assumes "posargs \<noteq> []"
    and "\<not> (case Stat (fsys w) (hd posargs) of None \<Rightarrow> False | Some e \<Rightarrow> is_not_exist e)"
    and "pending w = []"
  shows "case main pk fl posargs ins w of
           (r, w') \<Rightarrow>
             (if flag_once fl then
                compiles (new_effects w w') = 1 \<and> WatcherNew \<notin> set (new_effects w w') \<and>
                scheduled (new_effects w w') = [] \<and> (r = Returned 0 \<or> r = Returned 1)
              else
                take 1 (new_effects w w') = [WatcherNew] \<and>
                (new_watcher w = None \<and> Abs w (hd posargs) = Inr absPath \<and>
                 watcher_add w (Dir absPath) = None \<longrightarrow>
                   1 \<le> compiles (new_effects w w') \<and>
                   compiles (new_effects w w') \<le> 1 + trigger_count absPath ins))"
proof (cases "flag_once fl")
  case True
  let ?c = "compile pk (flag_server fl) (flag_compiler fl) (hd posargs) (flag_args fl)
                   (flag_source fl) (flag_root fl) w"
  from compile_run[of w pk "flag_server fl" "flag_compiler fl" "hd posargs" "flag_args fl"
         "flag_source fl" "flag_root fl"]
  obtain es where es: "extends w (snd ?c) (CompileCalled # es)" "list_all is_io es" by blast
  note t = extends_fields(8)[OF es(1)]
  note props = compiles_io[OF es(2)] io_no_watcher[OF es(2)] scheduled_io[OF es(2)]
  show ?thesis
  proof (cases "fst ?c")
    case None
    with assms True have "main pk fl posargs ins w = (Returned 0, snd ?c)"
      by (simp add: main_def Let_def split_beta)
    with t props True show ?thesis by (simp add: new_effects_def compiles_def)
  next
    case (Some err)
    with assms True have "main pk fl posargs ins w =
        (Returned 1, emit (PrintErr (''Error: '' @ Error err @ nl)) (snd ?c))"
      by (simp add: main_def Let_def split_beta)
    with t props True show ?thesis
      by (simp add: new_effects_def compiles_def scheduled_append)
  qed
next
  case False
  let ?wt = "watch pk (flag_server fl) (flag_compiler fl) (hd posargs) (flag_args fl)
                   (flag_source fl) (flag_root fl) ins w"
  have m: "\<exists>es'. compiles es' = 0 \<and> trace (snd (main pk fl posargs ins w)) = trace (snd ?wt) @ es'"
  proof (cases "fst ?wt")
    case Running
    with assms False have "snd (main pk fl posargs ins w) = snd ?wt"
      by (simp add: main_def Let_def split_beta)
    then have "compiles [] = 0 \<and> trace (snd (main pk fl posargs ins w)) = trace (snd ?wt) @ []"
      by (simp add: compiles_def)
    then show ?thesis by blast
  next
    case (Returned x)
    show ?thesis
    proof (cases x)
      case None
      with Returned assms False have "snd (main pk fl posargs ins w) = snd ?wt"
        by (simp add: main_def Let_def split_beta)
      then have "compiles [] = 0 \<and> trace (snd (main pk fl posargs ins w)) = trace (snd ?wt) @ []"
        by (simp add: compiles_def)
      then show ?thesis by blast
    next
      case (Some err)
      with Returned assms False have "snd (main pk fl posargs ins w) =
          emit (PrintErr (''Error: '' @ Error err @ nl)) (snd ?wt)"
        by (simp add: main_def Let_def split_beta)
      then have "compiles [PrintErr (''Error: '' @ Error err @ nl)] = 0 \<and>
          trace (snd (main pk fl posargs ins w)) = trace (snd ?wt) @ [PrintErr (''Error: '' @ Error err @ nl)]"
        by (simp add: compiles_def)
      then show ?thesis by blast
    qed
  qed
  then obtain es' where es': "compiles es' = 0"
    "trace (snd (main pk fl posargs ins w)) = trace (snd ?wt) @ es'" by blast
  from watch_first[of pk "flag_server fl" "flag_compiler fl" "hd posargs" "flag_args fl"
         "flag_source fl" "flag_root fl" ins w]
  obtain es1 where es1: "trace (snd ?wt) = trace w @ WatcherNew # es1" by blast
  have first: "take 1 (new_effects w (snd (main pk fl posargs ins w))) = [WatcherNew]"
    using es' es1 by (simp add: new_effects_def)
  have bound: "1 \<le> compiles (new_effects w (snd (main pk fl posargs ins w))) \<and>
       compiles (new_effects w (snd (main pk fl posargs ins w))) \<le> 1 + trigger_count absPath ins"
    if "new_watcher w = None" "Abs w (hd posargs) = Inr absPath" "watcher_add w (Dir absPath) = None"
  proof -
    from watch_run[OF assms(3) that, of pk "flag_server fl" "flag_compiler fl" "flag_args fl"
         "flag_source fl" "flag_root fl" ins]
    obtain es2 where es2: "trace (snd ?wt) = trace w @ es2" "1 \<le> compiles es2"
      "compiles es2 \<le> 1 + trigger_count absPath ins" by blast
    have "new_effects w (snd (main pk fl posargs ins w)) = es2 @ es'"
      using es'(2) es2(1) by (simp add: new_effects_def)
    with es'(1) es2(2,3) show ?thesis by (simp add: compiles_def)
  qed
  from first bound False show ?thesis by (simp add: split_beta)
qed

theorem main_compile_modes_witness:
  "[''main.zig''] \<noteq> [] \<and>
   Stat (fsys example_world) ''main.zig'' = None \<and>
   pending example_world = [] \<and>
   flag_once once_flags \<and>
   fst (main example_packages once_flags [''main.zig''] [] example_world) = Returned 0 \<and>
   compiles (new_effects example_world
     (snd (main example_packages once_flags [''main.zig''] [] example_world))) = 1 \<and>
   WatcherNew \<notin> set (new_effects example_world
     (snd (main example_packages once_flags [''main.zig''] [] example_world))) \<and>
   flag_once watch_flags = False \<and>
   new_watcher example_world = None \<and>
   Abs example_world ''main.zig'' = Inr ''/p/main.zig'' \<and>
   watcher_add example_world (Dir ''/p/main.zig'') = None \<and>
   take 1 (new_effects example_world
     (snd (main example_packages watch_flags [''main.zig''] (two_writes @ [Elapse 40]) example_world))) =
     [WatcherNew] \<and>
   compiles (new_effects example_world
     (snd (main example_packages watch_flags [''main.zig''] (two_writes @ [Elapse 40]) example_world)))
     \<le> 1 + trigger_count ''/p/main.zig'' (two_writes @ [Elapse 40]) \<and>
   compiles (new_effects example_world
     (snd (main example_packages watch_flags [''main.zig''] (two_writes @ [Elapse 40]) example_world))) = 2 \<and>
   trigger_count ''/p/main.zig'' (two_writes @ [Elapse 40]) = 2 \<and>
   compiles (new_effects example_world
     (snd (main example_packages watch_flags [''main.zig''] [] example_world))) = 1"
proof -
  have h1: "[''main.zig''] \<noteq> []" by simp
  have h2: "\<not> (case Stat (fsys example_world) (hd [''main.zig'']) of
                 None \<Rightarrow> False | Some e \<Rightarrow> is_not_exist e)"
    by (simp add: main_examples)
  have h3: "pending example_world = []" by (rule two_writes_run(1))
  have o: "flag_once once_flags" "flag_once watch_flags = False"
    by (simp_all add: once_flags_def watch_flags_def)
  from main_compile_modes[OF h1 h2 h3, where pk = example_packages and fl = once_flags and ins = "[]"] o
  have a: "WatcherNew \<notin> set (new_effects example_world
     (snd (main example_packages once_flags [''main.zig''] [] example_world)))"
    by (simp add: split_beta)
  from main_compile_modes[OF h1 h2 h3, where pk = example_packages and fl = watch_flags
      and ins = "two_writes @ [Elapse 40]" and absPath = "''/p/main.zig''"] o main_examples(11-13)
  have b: "take 1 (new_effects example_world
     (snd (main example_packages watch_flags [''main.zig''] (two_writes @ [Elapse 40]) example_world))) =
     [WatcherNew]"
    "compiles (new_effects example_world
     (snd (main example_packages watch_flags [''main.zig''] (two_writes @ [Elapse 40]) example_world)))
     \<le> 1 + trigger_count ''/p/main.zig'' (two_writes @ [Elapse 40])"
    by (simp_all add: split_beta)
  from h1 h3 o a b main_examples(5-14) show ?thesis by simp
qed

end
